theory Spec2Isabelle
  imports Complex_Main "HOL-Library.Log_Nat" "HOL-Library.Sublist"
begin

section \<open>Python values\<close>

text \<open>
  A Python \<^verbatim>\<open>str\<close> is a sequence of Unicode code points, modelled as a list of
  naturals; \<^verbatim>\<open>bytes\<close> is a list of 8-bit characters. A literal of the source is
  written \<open>lit ''...''\<close>; the source's literals are ASCII.
\<close>

type_synonym ustr = "nat list"
type_synonym bytes = "char list"

definition lit :: "string \<Rightarrow> ustr" where
  "lit s = map of_char s"

text \<open>
  An exception is its class name and the text \<^verbatim>\<open>str(e)\<close> gives for it. Only classes
  derived from \<^verbatim>\<open>Exception\<close> are modelled.
\<close>

datatype exn = Exn string ustr

fun exn_str :: "exn \<Rightarrow> ustr" where
  "exn_str (Exn c m) = m"

definition ZeroDivisionError :: exn where
  "ZeroDivisionError = Exn ''ZeroDivisionError'' (lit ''division by zero'')"

definition OverflowError :: exn where
  "OverflowError = Exn ''OverflowError'' (lit ''integer division result too large for a float'')"

definition KeyError :: "ustr \<Rightarrow> exn" where
  "KeyError k = Exn ''KeyError'' ([39] @ k @ [39])"

definition TypeError :: exn where
  "TypeError = Exn ''TypeError'' (lit ''argument after ** must be a mapping'')"

definition ValidationError :: exn where
  "ValidationError = Exn ''ValidationError'' (lit ''content: field required'')"

definition AttributeError :: exn where
  "AttributeError = Exn ''AttributeError'' (lit ''object has no attribute text'')"

section \<open>Float division of integers\<close>

text \<open>
  \<^verbatim>\<open>width / height\<close> on two Python integers is true division: the exact quotient,
  rounded to the nearest IEEE binary64 value with ties to even, and \<^verbatim>\<open>OverflowError\<close>
  when that value does not fit. A float is represented by the rational it denotes.
  \<open>round_half_even n d\<close> is the integer nearest to \<open>n / d\<close> for \<open>d > 0\<close>;
  \<open>binade a b\<close> is the exponent \<open>e\<close> with \<open>2^e \<le> a / b < 2^(e + 1)\<close> for positive
  \<open>a\<close>, \<open>b\<close>; \<open>scaled_round a b e\<close> is the 53-bit significand of \<open>a / b\<close> at
  exponent \<open>e\<close>. Exponents below \<open>-1022\<close> are subnormal and share the spacing
  \<open>2^(-1074)\<close>.
\<close>

definition round_half_even :: "int \<Rightarrow> int \<Rightarrow> int" where
  "round_half_even n d =
     (let f = n div d; r = n mod d
      in if 2 * r < d then f
         else if d < 2 * r then f + 1
         else if even f then f else f + 1)"

definition binade :: "int \<Rightarrow> int \<Rightarrow> int" where
  "binade a b =
     (let e0 = bitlen a - bitlen b
      in if (if 0 \<le> e0 then 2 ^ nat e0 * b \<le> a else b \<le> 2 ^ nat (- e0) * a)
         then e0 else e0 - 1)"

definition scaled_round :: "int \<Rightarrow> int \<Rightarrow> int \<Rightarrow> int" where
  "scaled_round a b e =
     (if e \<le> 52 then round_half_even (a * 2 ^ nat (52 - e)) b
      else round_half_even a (b * 2 ^ nat (e - 52)))"

definition nearest_double :: "int \<Rightarrow> int \<Rightarrow> rat" where
  "nearest_double a b =
     (if a = 0 then 0
      else let e = max (binade \<bar>a\<bar> \<bar>b\<bar>) (- 1022);
               m = scaled_round \<bar>a\<bar> \<bar>b\<bar> e
           in of_int (sgn a * sgn b * m) * 2 powi (e - 52))"

definition py_truediv :: "int \<Rightarrow> int \<Rightarrow> exn + rat" where
  "py_truediv a b =
     (if b = 0 then Inl ZeroDivisionError
      else let r = nearest_double a b
           in if 2 ^ 1024 \<le> \<bar>r\<bar> then Inl OverflowError else Inr r)"

section \<open>The relevance filter\<close>

text \<open>
  \<^verbatim>\<open>is_relevant_image\<close> (main.py, lines 96 to 99). The float literals \<^verbatim>\<open>0.8\<close> and
  \<^verbatim>\<open>1.2\<close> are the doubles nearest to 8/10 and 12/10. For a zero height the
  conditional expression yields the integer 0 and the division is not evaluated.
\<close>

definition is_relevant_image :: "int \<Rightarrow> int \<Rightarrow> exn + bool" where
  "is_relevant_image width height =
     (let total_pixels = width * height
      in case (if height \<noteq> 0 then py_truediv width height else Inr 0) of
           Inl e \<Rightarrow> Inl e
         | Inr aspect_ratio \<Rightarrow>
             Inr (\<not> (total_pixels < 40000 \<and>
                      nearest_double 8 10 \<le> aspect_ratio \<and>
                      aspect_ratio \<le> nearest_double 12 10)))"

text \<open>
  The policy in the words of the specification: skipped when the pixel count is strictly
  below 40000 and the exact aspect ratio lies in the closed band from 0.8 to 1.2.
  \<open>float_overflows\<close> holds when the quotient is too large in magnitude for a float.
\<close>

definition skipped_by_policy :: "int \<Rightarrow> int \<Rightarrow> bool" where
  "skipped_by_policy width height \<longleftrightarrow>
     width * height < 40000 \<and> height \<noteq> 0 \<and>
     (4 / 5 :: rat) \<le> of_int width / of_int height \<and>
     of_int width / of_int height \<le> (6 / 5 :: rat)"

definition float_overflows :: "int \<Rightarrow> int \<Rightarrow> bool" where
  "float_overflows width height \<longleftrightarrow>
     height \<noteq> 0 \<and> (2 ^ 1024 - 2 ^ 970 :: rat) \<le> \<bar>of_int width / of_int height\<bar>"

section \<open>Strings of the composed document\<close>

text \<open>
  \<^verbatim>\<open>str(page_num)\<close> for the page counter of \<^verbatim>\<open>enumerate(pdf.pages, 1)\<close>, the two
  f-strings of lines 125 and 166, and \<^verbatim>\<open>str.strip()\<close>, which removes the code points
  for which \<^verbatim>\<open>str.isspace\<close> holds from both ends.
\<close>

fun str_nat :: "nat \<Rightarrow> ustr" where
  "str_nat n = (if n < 10 then [48 + n] else str_nat (n div 10) @ [48 + n mod 10])"

declare str_nat.simps [simp del]

definition page_section :: "nat \<Rightarrow> ustr \<Rightarrow> ustr" where
  "page_section page_num page_text =
     [10, 10] @ lit ''--- Page '' @ str_nat page_num @ lit '' ---'' @ [10, 10] @ page_text @ [10]"

definition image_section :: "nat \<Rightarrow> ustr \<Rightarrow> ustr" where
  "image_section page_num analysis =
     [10, 10] @ lit ''--- Image Analysis (Page '' @ str_nat page_num @ lit '') ---'' @ [10, 10]
       @ analysis @ [10]"

definition isspace :: "nat \<Rightarrow> bool" where
  "isspace c \<longleftrightarrow>
     (9 \<le> c \<and> c \<le> 13) \<or> (28 \<le> c \<and> c \<le> 32) \<or> c = 133 \<or> c = 160 \<or> c = 5760 \<or>
     (8192 \<le> c \<and> c \<le> 8202) \<or> c = 8232 \<or> c = 8233 \<or> c = 8239 \<or> c = 8287 \<or> c = 12288"

definition strip :: "ustr \<Rightarrow> ustr" where
  "strip s = rev (dropWhile isspace (rev (dropWhile isspace s)))"

text \<open>\<^verbatim>\<open>str.upper()\<close>, on the ASCII letters of the three format names it is applied to.\<close>

definition upper :: "ustr \<Rightarrow> ustr" where
  "upper s = map (\<lambda>c. if 97 \<le> c \<and> c \<le> 122 then c - 32 else c) s"

section \<open>The document, the libraries and the outside world\<close>

text \<open>
  What \<^verbatim>\<open>PdfReader\<close> hands to the pipeline. An object of a PDF dictionary is a name,
  a text string (both subclasses of \<^verbatim>\<open>str\<close>), a number, an array or something else. An
  XObject is a stream: its dictionary entries in order, and the outcome of calling
  \<^verbatim>\<open>get_data()\<close> on it. A page gives the outcome of \<^verbatim>\<open>extract_text()\<close> and, when
  it has \<^verbatim>\<open>/Resources\<close>, the \<^verbatim>\<open>/XObject\<close> dictionary of those resources when there is
  one; the dictionary is a list of distinct names with their streams, in iteration order.
\<close>

datatype pdf_object =
    NameObject ustr
  | TextStringObject ustr
  | NumberObject int
  | ArrayObject "pdf_object list"
  | NullObject

record xobject =
  entries :: "(ustr \<times> pdf_object) list"
  get_data :: "exn + bytes"

record resources =
  XObject :: "(ustr \<times> xobject) list option"

record page =
  extract_text :: "exn + ustr"
  Resources :: "resources option"

record image =
  img_size :: "int \<times> int"
  pixels :: bytes

datatype json =
    JNull
  | JBool bool
  | JNumber rat
  | JString ustr
  | JArray "json list"
  | JObject "(ustr \<times> json) list"

record PDFParseResponse =
  content :: ustr

datatype content_block = TextBlock ustr | OtherBlock

record api_request =
  model :: ustr
  max_tokens :: int
  prompt_text :: ustr
  request_media_type :: ustr
  request_data :: ustr

text \<open>One invocation of \<^verbatim>\<open>ClaudeClient.analyze_image\<close>, with its three arguments.\<close>

record analyze_call =
  image_data :: bytes
  media_type :: ustr
  call_context :: ustr

text \<open>
  The library functions the source calls, as parameters: the digest, the PDF reader, the
  three Pillow operations, base64, the model API (whose answer may depend on the calls made
  before) and pydantic's treatment of a \<^verbatim>\<open>content\<close> value that is not a string.
\<close>

record library =
  sha256_hexdigest :: "bytes \<Rightarrow> ustr"
  PdfReader :: "bytes \<Rightarrow> exn + page list"
  Image_frombytes :: "ustr \<Rightarrow> pdf_object \<times> pdf_object \<Rightarrow> bytes \<Rightarrow> exn + image"
  Image_open :: "bytes \<Rightarrow> exn + image"
  Image_save :: "image \<Rightarrow> ustr \<Rightarrow> exn + bytes"
  b64encode :: "bytes \<Rightarrow> ustr"
  messages_create :: "analyze_call list \<Rightarrow> api_request \<Rightarrow> exn + content_block list"
  pydantic_str :: "json \<Rightarrow> exn + ustr"

text \<open>
  The state outside the process: for each cache key, whether its file exists and what
  \<^verbatim>\<open>json.load\<close> makes of it (an exception for an unreadable or malformed file); for each
  key, the exception that opening its file for writing raises, if any; and the calls of
  \<^verbatim>\<open>analyze_image\<close> made so far.
\<close>

datatype cache_file = Corrupt exn | Stored json

record world =
  cache_files :: "ustr \<Rightarrow> cache_file option"
  cache_write_error :: "ustr \<Rightarrow> exn option"
  api_log :: "analyze_call list"

section \<open>The content cache\<close>

text \<open>
  \<^verbatim>\<open>FileCache.get\<close> and \<^verbatim>\<open>FileCache.put\<close> (lines 28 to 38). A missing file gives
  \<^verbatim>\<open>None\<close>; neither method catches anything. What \<^verbatim>\<open>json.dump\<close> writes,
  \<^verbatim>\<open>json.load\<close> reads back unchanged.
\<close>

definition FileCache_get :: "world \<Rightarrow> ustr \<Rightarrow> exn + json option" where
  "FileCache_get w key =
     (case cache_files w key of
        None \<Rightarrow> Inr None
      | Some (Corrupt e) \<Rightarrow> Inl e
      | Some (Stored v) \<Rightarrow> Inr (Some v))"

definition FileCache_put :: "world \<Rightarrow> ustr \<Rightarrow> json \<Rightarrow> (exn + unit) \<times> world" where
  "FileCache_put w key v =
     (case cache_write_error w key of
        Some e \<Rightarrow> (Inl e, w)
      | None \<Rightarrow> (Inr (), w\<lparr>cache_files := (cache_files w)(key \<mapsto> Stored v)\<rparr>))"

text \<open>The truth value of \<^verbatim>\<open>cached_result\<close> in the test of line 116.\<close>

fun truthy :: "json option \<Rightarrow> bool" where
  "truthy None = False"
| "truthy (Some JNull) = False"
| "truthy (Some (JBool b)) = b"
| "truthy (Some (JNumber x)) = (x \<noteq> 0)"
| "truthy (Some (JString s)) = (s \<noteq> [])"
| "truthy (Some (JArray xs)) = (xs \<noteq> [])"
| "truthy (Some (JObject kvs)) = (kvs \<noteq> [])"

text \<open>
  \<^verbatim>\<open>PDFParseResponse(**cached_result)\<close> (line 117): the argument must be a mapping, the
  field \<^verbatim>\<open>content\<close> is required, other keys are ignored.
\<close>

fun PDFParseResponse_kwargs :: "library \<Rightarrow> json \<Rightarrow> exn + PDFParseResponse" where
  "PDFParseResponse_kwargs lib (JObject kvs) =
     (case map_of kvs (lit ''content'') of
        None \<Rightarrow> Inl ValidationError
      | Some (JString s) \<Rightarrow> Inr \<lparr>content = s\<rparr>
      | Some v \<Rightarrow> (case pydantic_str lib v of Inl e \<Rightarrow> Inl e | Inr s \<Rightarrow> Inr \<lparr>content = s\<rparr>))"
| "PDFParseResponse_kwargs lib v = Inl TypeError"

definition dict_of_response :: "PDFParseResponse \<Rightarrow> json" where
  "dict_of_response r = JObject [(lit ''content'', JString (content r))]"

definition get_pdf_hash :: "library \<Rightarrow> bytes \<Rightarrow> ustr" where
  "get_pdf_hash lib pdf_content = sha256_hexdigest lib pdf_content"

section \<open>The image analyzer\<close>

text \<open>
  \<^verbatim>\<open>ClaudeClient.analyze_image\<close> (lines 48 to 93): the prompt is the context between
  a heading and the fixed instructions; the answer is the text of the first content block,
  or a fixed sentence when there is none. The call is recorded whatever its outcome.
\<close>

definition prompt_instructions :: ustr where
  "prompt_instructions =
     [10, 10] @ lit ''Please analyze the following image in detail. Identify the type of diagram or document it represents (e.g., architecture diagram, sequence diagram, database table diagram, API specification, flowchart, UML diagram).''
     @ [10, 10] @ lit ''Based on the identified type, provide a detailed analysis including:''
     @ [10, 10] @ lit ''- For database diagrams: List all tables, their columns, data types, primary keys, and relationships.''
     @ [10] @ lit ''- For API endpoints: Describe the URL, HTTP method, request format (headers, parameters, body), and response format.''
     @ [10] @ lit ''- For architecture diagrams: List all components, their purposes, and explain the relationships and data flow.''
     @ [10] @ lit ''- For sequence diagrams: List all actors/components and describe the sequence of interactions.''
     @ [10] @ lit ''- For flowcharts: Describe all steps/decision points and explain the process flow and logic.''
     @ [10] @ lit ''- For UML diagrams: Identify the type, describe the main elements and their relationships.''
     @ [10] @ lit ''- For any other type: Provide a detailed description of the content and explain any significant elements or patterns.''
     @ [10, 10] @ lit ''Provide your analysis in a clear, detailed text format.'' @ [10]"

fun block_text :: "content_block \<Rightarrow> exn + ustr" where
  "block_text (TextBlock t) = Inr t"
| "block_text OtherBlock = Inl AttributeError"

definition analyze_image ::
  "library \<Rightarrow> analyze_call list \<Rightarrow> bytes \<Rightarrow> ustr \<Rightarrow> ustr \<Rightarrow> (exn + ustr) \<times> analyze_call list" where
  "analyze_image lib calls img mime ctx =
     (let base64_data = b64encode lib img;
          prompt = [10] @ lit ''Context: '' @ ctx @ prompt_instructions;
          message = messages_create lib calls
            \<lparr>model = lit ''claude-3-5-sonnet-20240620'', max_tokens = 4096, prompt_text = prompt,
             request_media_type = mime, request_data = base64_data\<rparr>
      in (case message of
            Inl e \<Rightarrow> Inl e
          | Inr [] \<Rightarrow> Inr (lit ''No analysis available'')
          | Inr (b # bs) \<Rightarrow> block_text b,
          calls @ [\<lparr>image_data = img, media_type = mime, call_context = ctx\<rparr>]))"

section \<open>The extraction pipeline\<close>

text \<open>Subscripting a PDF dictionary, and comparing one of its objects with a string.\<close>

definition getitem :: "(ustr \<times> pdf_object) list \<Rightarrow> ustr \<Rightarrow> exn + pdf_object" where
  "getitem d k = (case map_of d k of None \<Rightarrow> Inl (KeyError k) | Some v \<Rightarrow> Inr v)"

fun py_eq :: "pdf_object \<Rightarrow> ustr \<Rightarrow> bool" where
  "py_eq (NameObject n) s = (n = s)"
| "py_eq (TextStringObject t) s = (t = s)"
| "py_eq v s = False"

text \<open>
  Lines 134 to 147: the decoder chosen by \<^verbatim>\<open>/Filter\<close>, with the format and media type
  that go with it; \<open>None\<close> is the \<^verbatim>\<open>continue\<close> of the last branch.
\<close>

definition decode_image ::
  "library \<Rightarrow> pdf_object \<Rightarrow> pdf_object \<times> pdf_object \<Rightarrow> bytes \<Rightarrow> (exn + image \<times> ustr \<times> ustr) option" where
  "decode_image lib filter_name sz data =
     (if py_eq filter_name (lit ''/FlateDecode'') then
        Some (case Image_frombytes lib (lit ''RGB'') sz data of
                Inl e \<Rightarrow> Inl e | Inr img \<Rightarrow> Inr (img, lit ''png'', lit ''image/png''))
      else if py_eq filter_name (lit ''/DCTDecode'') then
        Some (case Image_open lib data of
                Inl e \<Rightarrow> Inl e | Inr img \<Rightarrow> Inr (img, lit ''jpeg'', lit ''image/jpeg''))
      else if py_eq filter_name (lit ''/JPXDecode'') then
        Some (case Image_open lib data of
                Inl e \<Rightarrow> Inl e | Inr img \<Rightarrow> Inr (img, lit ''jp2'', lit ''image/jp2''))
      else None)"

text \<open>
  Lines 130 to 156, the part of the loop body before the analysis: an exception, or
  \<open>None\<close> when the object is passed over (not an image, an unrecognized filter, not
  relevant), or the encoded image and its media type.
\<close>

definition load_image :: "library \<Rightarrow> xobject \<Rightarrow> exn + (bytes \<times> ustr) option" where
  "load_image lib x =
     (case getitem (entries x) (lit ''/Subtype'') of
        Inl e \<Rightarrow> Inl e
      | Inr subtype \<Rightarrow>
     if \<not> py_eq subtype (lit ''/Image'') then Inr None else
     (case getitem (entries x) (lit ''/Width'') of
        Inl e \<Rightarrow> Inl e
      | Inr w \<Rightarrow>
     (case getitem (entries x) (lit ''/Height'') of
        Inl e \<Rightarrow> Inl e
      | Inr h \<Rightarrow>
     (case get_data x of
        Inl e \<Rightarrow> Inl e
      | Inr data \<Rightarrow>
     (case getitem (entries x) (lit ''/Filter'') of
        Inl e \<Rightarrow> Inl e
      | Inr filter_name \<Rightarrow>
     (case decode_image lib filter_name (w, h) data of
        None \<Rightarrow> Inr None
      | Some (Inl e) \<Rightarrow> Inl e
      | Some (Inr (img, format, mime_type)) \<Rightarrow>
     (case is_relevant_image (fst (img_size img)) (snd (img_size img)) of
        Inl e \<Rightarrow> Inl e
      | Inr relevant \<Rightarrow>
     if \<not> relevant then Inr None else
     (case Image_save lib img (upper format) of
        Inl e \<Rightarrow> Inl e
      | Inr img_byte_arr \<Rightarrow> Inr (Some (img_byte_arr, mime_type))))))))))"

text \<open>
  The \<^verbatim>\<open>try\<close> statement of lines 158 to 163: the analysis, or the placeholder made
  from the exception the analyzer raised.
\<close>

definition analysis_or_error :: "exn + ustr \<Rightarrow> ustr" where
  "analysis_or_error r =
     (case r of Inl e \<Rightarrow> lit ''Error analyzing image: '' @ exn_str e | Inr a \<Rightarrow> a)"

text \<open>
  The body of the inner loop for one XObject, on the document so far and the call log
  (lines 130 to 167). Only the analyzer call stands inside \<^verbatim>\<open>try\<close>.
\<close>

definition process_xobject ::
  "library \<Rightarrow> nat \<Rightarrow> xobject \<Rightarrow> ustr \<times> analyze_call list \<Rightarrow> (exn + ustr) \<times> analyze_call list" where
  "process_xobject lib page_num x st =
     (case st of (full_content, calls) \<Rightarrow>
      (case load_image lib x of
         Inl e \<Rightarrow> (Inl e, calls)
       | Inr None \<Rightarrow> (Inr full_content, calls)
       | Inr (Some (img_byte_arr, mime_type)) \<Rightarrow>
           (case analyze_image lib calls img_byte_arr mime_type full_content of
              (r, calls') \<Rightarrow>
                (let analysis = analysis_or_error r
                 in (Inr (full_content @ image_section page_num analysis), calls')))))"

fun process_xobjects ::
  "library \<Rightarrow> nat \<Rightarrow> xobject list \<Rightarrow> ustr \<times> analyze_call list \<Rightarrow> (exn + ustr) \<times> analyze_call list" where
  "process_xobjects lib page_num [] st = (Inr (fst st), snd st)"
| "process_xobjects lib page_num (x # xs) st =
     (case process_xobject lib page_num x st of
        (Inl e, calls) \<Rightarrow> (Inl e, calls)
      | (Inr full_content, calls) \<Rightarrow> process_xobjects lib page_num xs (full_content, calls))"

text \<open>The XObjects the inner loop of a page visits (line 127 and 128).\<close>

definition page_xobjects :: "page \<Rightarrow> xobject list" where
  "page_xobjects p =
     (case Resources p of
        None \<Rightarrow> []
      | Some res \<Rightarrow> (case XObject res of None \<Rightarrow> [] | Some d \<Rightarrow> map snd d))"

definition process_page ::
  "library \<Rightarrow> nat \<Rightarrow> page \<Rightarrow> ustr \<times> analyze_call list \<Rightarrow> (exn + ustr) \<times> analyze_call list" where
  "process_page lib page_num p st =
     (case st of (full_content, calls) \<Rightarrow>
      (case extract_text p of
         Inl e \<Rightarrow> (Inl e, calls)
       | Inr page_text \<Rightarrow>
           process_xobjects lib page_num (page_xobjects p)
             (full_content @ page_section page_num page_text, calls)))"

fun process_pages ::
  "library \<Rightarrow> nat \<Rightarrow> page list \<Rightarrow> ustr \<times> analyze_call list \<Rightarrow> (exn + ustr) \<times> analyze_call list" where
  "process_pages lib page_num [] st = (Inr (fst st), snd st)"
| "process_pages lib page_num (p # ps) st =
     (case process_page lib page_num p st of
        (Inl e, calls) \<Rightarrow> (Inl e, calls)
      | (Inr full_content, calls) \<Rightarrow> process_pages lib (Suc page_num) ps (full_content, calls))"

text \<open>\<^verbatim>\<open>parse_pdf\<close> (lines 111 to 173).\<close>

definition parse_pdf :: "library \<Rightarrow> bytes \<Rightarrow> world \<Rightarrow> (exn + PDFParseResponse) \<times> world" where
  "parse_pdf lib pdf_content w =
     (let pdf_hash = get_pdf_hash lib pdf_content
      in case FileCache_get w pdf_hash of
           Inl e \<Rightarrow> (Inl e, w)
         | Inr cached_result \<Rightarrow>
             if truthy cached_result then (PDFParseResponse_kwargs lib (the cached_result), w)
             else (case PdfReader lib pdf_content of
                     Inl e \<Rightarrow> (Inl e, w)
                   | Inr pages \<Rightarrow>
                       (case process_pages lib 1 pages ([], api_log w) of
                          (Inl e, calls) \<Rightarrow> (Inl e, w\<lparr>api_log := calls\<rparr>)
                        | (Inr full_content, calls) \<Rightarrow>
                            (let result = \<lparr>content = strip full_content\<rparr>
                             in case FileCache_put (w\<lparr>api_log := calls\<rparr>) pdf_hash
                                       (dict_of_response result) of
                                  (Inl e, w') \<Rightarrow> (Inl e, w')
                                | (Inr u, w') \<Rightarrow> (Inr result, w')))))"

section \<open>The composed document in the words of the specification\<close>


definition page_segment :: "nat \<Rightarrow> ustr \<times> ustr list \<Rightarrow> ustr" where
  "page_segment page_num ta =
     page_section page_num (fst ta) @ concat (map (image_section page_num) (snd ta))"

definition segments :: "nat \<Rightarrow> (ustr \<times> ustr list) list \<Rightarrow> ustr" where
  "segments k tas = concat (map (\<lambda>(i, ta). page_segment i ta) (zip [k..<k + length tas] tas))"

definition composed_document :: "(ustr \<times> ustr list) list \<Rightarrow> ustr" where
  "composed_document tas = strip (segments 1 tas)"





section \<open>Example documents\<close>

text \<open>
  Concrete inputs on which the theorems below are instantiated: image streams with a
  FlateDecode, a DCTDecode, a JBIG2Decode and no filter; pages with and without images; a
  library in which every call but \<^verbatim>\<open>Image.open\<close> succeeds, the same library without
  network and with a failing encoder; and a cache directory that is empty, unreadable,
  read-only or already filled.
\<close>

definition flate_image :: xobject where
  "flate_image =
     \<lparr>entries = [(lit ''/Subtype'', NameObject (lit ''/Image'')),
                 (lit ''/Width'', NumberObject 500), (lit ''/Height'', NumberObject 500),
                 (lit ''/Filter'', NameObject (lit ''/FlateDecode''))],
      get_data = Inr []\<rparr>"

definition jpeg_image :: xobject where
  "jpeg_image =
     \<lparr>entries = [(lit ''/Subtype'', NameObject (lit ''/Image'')),
                 (lit ''/Width'', NumberObject 640), (lit ''/Height'', NumberObject 480),
                 (lit ''/Filter'', NameObject (lit ''/DCTDecode''))],
      get_data = Inr []\<rparr>"

definition jbig2_image :: xobject where
  "jbig2_image =
     \<lparr>entries = [(lit ''/Subtype'', NameObject (lit ''/Image'')),
                 (lit ''/Width'', NumberObject 500), (lit ''/Height'', NumberObject 500),
                 (lit ''/Filter'', NameObject (lit ''/JBIG2Decode''))],
      get_data = Inl (Exn ''NotImplementedError'' (lit ''unsupported filter /JBIG2Decode''))\<rparr>"

definition text_page :: "string \<Rightarrow> page" where
  "text_page s = \<lparr>extract_text = Inr (lit s), Resources = None\<rparr>"

definition image_page :: "string \<Rightarrow> xobject list \<Rightarrow> page" where
  "image_page s xs =
     \<lparr>extract_text = Inr (lit s),
      Resources = Some \<lparr>XObject = Some (map (\<lambda>(i, x). (lit ''/Im'' @ str_nat i, x)) (enumerate 0 xs))\<rparr>\<rparr>"

definition demo_library :: "page list \<Rightarrow> library" where
  "demo_library ps =
     \<lparr>sha256_hexdigest = (\<lambda>b. lit ''e3b0''),
      PdfReader = (\<lambda>b. Inr ps),
      Image_frombytes = (\<lambda>mode sz d. Inr \<lparr>img_size = (500, 500), pixels = d\<rparr>),
      Image_open = (\<lambda>d. Inl (Exn ''UnidentifiedImageError'' (lit ''cannot identify image file''))),
      Image_save = (\<lambda>img fmt. Inr (pixels img)),
      b64encode = (\<lambda>b. []),
      messages_create = (\<lambda>calls req. Inr [TextBlock (lit ''A diagram.'')]),
      pydantic_str = (\<lambda>v. Inl ValidationError)\<rparr>"

definition offline_library :: "page list \<Rightarrow> library" where
  "offline_library ps =
     (demo_library ps)\<lparr>messages_create :=
        (\<lambda>calls req. Inl (Exn ''APIConnectionError'' (lit ''Connection error.'')))\<rparr>"

definition empty_world :: world where
  "empty_world = \<lparr>cache_files = (\<lambda>k. None), cache_write_error = (\<lambda>k. None), api_log = []\<rparr>"

definition corrupt_world :: world where
  "corrupt_world =
     empty_world\<lparr>cache_files := (\<lambda>k. Some (Corrupt (Exn ''JSONDecodeError'' (lit ''Expecting value''))))\<rparr>"

definition readonly_world :: world where
  "readonly_world =
     empty_world\<lparr>cache_write_error := (\<lambda>k. Some (Exn ''PermissionError'' (lit ''Permission denied'')))\<rparr>"

definition cached_world :: world where
  "cached_world =
     empty_world\<lparr>cache_files := (\<lambda>k. Some (Stored (dict_of_response \<lparr>content = lit ''cached''\<rparr>)))\<rparr>"

definition two_pages :: "page list" where
  "two_pages = [text_page ''Intro'', image_page ''Design'' [flate_image]]"


definition scan_pages :: "page list" where
  "scan_pages = [text_page ''Intro'', image_page ''Photo'' [jpeg_image]]"

definition broken_encoder_library :: "page list \<Rightarrow> library" where
  "broken_encoder_library ps =
     (demo_library ps)\<lparr>Image_save := (\<lambda>img fmt. Inl (Exn ''OSError'' (lit ''encoder error'')))\<rparr>"

definition raw_image :: xobject where
  "raw_image =
     \<lparr>entries = [(lit ''/Subtype'', NameObject (lit ''/Image'')),
                 (lit ''/Width'', NumberObject 500), (lit ''/Height'', NumberObject 500)],
      get_data = Inr []\<rparr>"

section \<open>Rounding to the nearest integer\<close>

lemma rhe_cases:
  assumes "0 < d"
  obtains f r where "n = f * d + r" "0 \<le> r" "r < d"
    "round_half_even n d = (if 2 * r < d then f else if d < 2 * r then f + 1 else if even f then f else f + 1)"
proof -
  have "n = (n div d) * d + n mod d" by simp
  moreover have "0 \<le> n mod d" "n mod d < d" using assms by simp_all
  moreover have "round_half_even n d = (if 2 * (n mod d) < d then n div d else if d < 2 * (n mod d) then n div d + 1
      else if even (n div d) then n div d else n div d + 1)"
    by (simp add: round_half_even_def Let_def)
  ultimately show thesis using that by blast
qed

lemma rhe_err:
  assumes "0 < d"
  shows "2 * (round_half_even n d * d - n) \<le> d \<and> 2 * (n - round_half_even n d * d) \<le> d"
proof -
  obtain f r where fr: "n = f * d + r" "0 \<le> r" "r < d"
    and m: "round_half_even n d = (if 2 * r < d then f else if d < 2 * r then f + 1 else if even f then f else f + 1)"
    using rhe_cases[OF assms] by blast
  show ?thesis unfolding m using fr by (auto simp: algebra_simps)
qed

lemma rhe_tie_even:
  assumes "0 < d" and "2 * (n - round_half_even n d * d) = d"
  shows "even (round_half_even n d)"
proof -
  obtain f r where fr: "n = f * d + r" "0 \<le> r" "r < d"
    and m: "round_half_even n d = (if 2 * r < d then f else if d < 2 * r then f + 1 else if even f then f else f + 1)"
    using rhe_cases[OF assms(1)] by blast
  show ?thesis using assms(2) fr unfolding m by (auto simp: algebra_simps split: if_splits)
qed

lemma rhe_scale:
  assumes "0 < k"
  shows "round_half_even (k * n) (k * d) = round_half_even n d"
  using assms by (simp add: round_half_even_def Let_def)

lemma rhe_ge:
  assumes "0 < d" and "k * d \<le> n"
  shows "k \<le> round_half_even n d"
proof -
  have "2 * (n - round_half_even n d * d) \<le> d" using rhe_err[OF assms(1), of n] by simp
  then have "(2 * k - 1) * d \<le> (2 * round_half_even n d) * d" using assms(2) by (simp add: algebra_simps)
  then have "2 * k - 1 \<le> 2 * round_half_even n d" using assms(1) by simp
  then show ?thesis by linarith
qed

lemma rhe_le:
  assumes "0 < d" and "n \<le> k * d"
  shows "round_half_even n d \<le> k"
proof -
  have "2 * (round_half_even n d * d - n) \<le> d" using rhe_err[OF assms(1), of n] by simp
  then have "(2 * round_half_even n d) * d \<le> (2 * k + 1) * d" using assms(2) by (simp add: algebra_simps)
  then have "2 * round_half_even n d \<le> 2 * k + 1" using assms(1) by simp
  then show ?thesis by linarith
qed

lemma rhe_less:
  assumes "0 < d" and "2 * n + d < 2 * k * d"
  shows "round_half_even n d < k"
proof -
  have "2 * (round_half_even n d * d - n) \<le> d" using rhe_err[OF assms(1), of n] by simp
  then have "(2 * round_half_even n d) * d < (2 * k) * d" using assms(2) by (simp add: algebra_simps)
  then have "2 * round_half_even n d < 2 * k" using assms(1) by simp
  then show ?thesis by linarith
qed

lemma rhe_ge_tie:
  assumes "0 < d" and "(2 * k - 1) * d \<le> 2 * n" and "even k"
  shows "k \<le> round_half_even n d"
proof -
  let ?m = "round_half_even n d"
  have e: "2 * (n - ?m * d) \<le> d" using rhe_err[OF assms(1), of n] by simp
  then have "(2 * k - 2) * d \<le> (2 * ?m) * d" using assms(2) by (simp add: algebra_simps)
  then have "2 * k - 2 \<le> 2 * ?m" using assms(1) by simp
  then have ge: "k - 1 \<le> ?m" by linarith
  have "?m \<noteq> k - 1"
  proof
    assume eq: "?m = k - 1"
    have "2 * (n - ?m * d) = 2 * n - (2 * k - 2) * d" by (simp add: eq algebra_simps)
    also have "\<dots> \<ge> d" using assms(2) by (simp add: algebra_simps)
    finally have "2 * (n - ?m * d) = d" using e by linarith
    then have "even ?m" by (rule rhe_tie_even[OF assms(1)])
    then show False using assms(3) eq by simp
  qed
  then show ?thesis using ge by linarith
qed


lemma powi2_less_imp: "(2::rat) powi m < 2 powi n \<Longrightarrow> m < n"
proof (rule ccontr)
  assume a: "(2::rat) powi m < 2 powi n" and "\<not> m < n"
  then have "n \<le> m" by simp
  then have "(2::rat) powi n \<le> 2 powi m" by (rule power_int_increasing) simp
  with a show False by simp
qed

lemma powi2_le_imp: "(2::rat) powi m \<le> 2 powi n \<Longrightarrow> m \<le> n"
proof (rule ccontr)
  assume a: "(2::rat) powi m \<le> 2 powi n" and "\<not> m \<le> n"
  then have "n < m" by simp
  then have "(2::rat) powi n < 2 powi m" by (rule power_int_strict_increasing) simp
  with a show False by simp
qed

lemma bitlen_powi_bounds:
  assumes "0 < a"
  shows "(2::rat) powi (bitlen a - 1) \<le> of_int a" and "of_int a < (2::rat) powi (bitlen a)"
proof -
  have pos: "1 \<le> bitlen a" using assms bitlen_eq_zero_iff[of a] bitlen_nonneg[of a] by linarith
  have b: "2 ^ nat (bitlen a - 1) \<le> a" "a < 2 ^ nat (bitlen a)"
    using bitlen_bounds[OF assms] by simp_all
  have "(2::rat) powi (bitlen a - 1) = of_int (2 ^ nat (bitlen a - 1))"
    using pos by (simp add: power_int_nonneg_exp)
  also have "\<dots> \<le> of_int a" using b(1) by (simp only: of_int_le_iff)
  finally show "(2::rat) powi (bitlen a - 1) \<le> of_int a" .
  have "(of_int a :: rat) < of_int (2 ^ nat (bitlen a))" using b(2) by (simp only: of_int_less_iff)
  also have "\<dots> = 2 powi (bitlen a)" using pos by (simp add: power_int_nonneg_exp)
  finally show "of_int a < (2::rat) powi (bitlen a)" .
qed

lemma binade_test:
  assumes "0 < a" "0 < b"
  shows "(if 0 \<le> e then 2 ^ nat e * b \<le> a else b \<le> 2 ^ nat (- e) * a)
         \<longleftrightarrow> (2::rat) powi e \<le> of_int a / of_int b"
proof (cases "0 \<le> e")
  case True
  have "(2 ^ nat e * b \<le> a) \<longleftrightarrow> ((of_int (2 ^ nat e * b) :: rat) \<le> of_int a)"
    by (simp only: of_int_le_iff)
  also have "\<dots> \<longleftrightarrow> ((2::rat) ^ nat e \<le> of_int a / of_int b)"
    using assms by (simp add: pos_le_divide_eq)
  finally show ?thesis using True by (simp add: power_int_nonneg_exp)
next
  case False
  then have p: "(2::rat) powi e = 1 / 2 ^ nat (- e)" by (simp add: power_int_def field_simps)
  have "(b \<le> 2 ^ nat (- e) * a) \<longleftrightarrow> ((of_int b :: rat) \<le> of_int (2 ^ nat (- e) * a))"
    by (simp only: of_int_le_iff)
  also have "\<dots> \<longleftrightarrow> (1 / (2::rat) ^ nat (- e) \<le> of_int a / of_int b)"
    using assms by (simp add: field_simps)
  finally show ?thesis using False p by simp
qed

lemma binade_bounds:
  assumes "0 < a" "0 < b"
  shows "(2::rat) powi (binade a b) \<le> of_int a / of_int b"
    and "of_int a / of_int b < (2::rat) powi (binade a b + 1)"
proof -
  let ?q = "of_int a / of_int b :: rat"
  define e0 where "e0 = bitlen a - bitlen b"
  have a: "(2::rat) powi (bitlen a - 1) \<le> of_int a" "of_int a < (2::rat) powi (bitlen a)"
    using bitlen_powi_bounds[OF assms(1)] by simp_all
  have b: "(2::rat) powi (bitlen b - 1) \<le> of_int b" "of_int b < (2::rat) powi (bitlen b)"
    using bitlen_powi_bounds[OF assms(2)] by simp_all
  have ap: "(0::rat) < of_int a" and bp: "(0::rat) < of_int b" using assms by simp_all
  have "?q < 2 powi (bitlen a) / 2 powi (bitlen b - 1)"
    using a(2) b(1) ap by (intro frac_less) simp_all
  also have "\<dots> = 2 powi (e0 + 1)"
    by (simp add: e0_def power_int_diff[symmetric] algebra_simps)
  finally have up: "?q < 2 powi (e0 + 1)" .
  have "(2::rat) powi (e0 - 1) = 2 powi (bitlen a - 1) / 2 powi (bitlen b)"
    by (simp add: e0_def power_int_diff[symmetric] algebra_simps)
  also have "\<dots> < ?q"
    using a(1) b(2) bp by (intro frac_less2) simp_all
  finally have lo: "(2::rat) powi (e0 - 1) < ?q" .
  have bin: "binade a b = (if (2::rat) powi e0 \<le> ?q then e0 else e0 - 1)"
    unfolding binade_def Let_def e0_def[symmetric] by (simp only: binade_test[OF assms])
  show "(2::rat) powi (binade a b) \<le> ?q"
    using lo by (simp add: bin)
  show "?q < (2::rat) powi (binade a b + 1)"
    using up by (simp add: bin)
qed

lemma binade_unique:
  assumes "0 < a" "0 < b"
    and "(2::rat) powi e \<le> of_int a / of_int b" and "of_int a / of_int b < (2::rat) powi (e + 1)"
  shows "binade a b = e"
proof -
  have "(2::rat) powi e < 2 powi (binade a b + 1)"
    using assms(3) binade_bounds(2)[OF assms(1,2)] by (rule le_less_trans)
  then have 1: "e < binade a b + 1" by (rule powi2_less_imp)
  have "(2::rat) powi (binade a b) < 2 powi (e + 1)"
    using binade_bounds(1)[OF assms(1,2)] assms(4) by (rule le_less_trans)
  then have "binade a b < e + 1" by (rule powi2_less_imp)
  with 1 show ?thesis by simp
qed

lemma binade_scale:
  assumes "0 < a" "0 < b" "0 < k"
  shows "binade (k * a) (k * b) = binade a b"
proof -
  have q: "(of_int (k * a) / of_int (k * b) :: rat) = of_int a / of_int b"
    using assms by simp
  show ?thesis
    using binade_bounds[OF assms(1,2)] assms
    by (intro binade_unique) (simp_all only: q mult_pos_pos)
qed


lemma rhe_rat_err:
  assumes "0 < d"
  shows "\<bar>of_int (round_half_even n d) - (of_int n / of_int d :: rat)\<bar> \<le> 1 / 2"
proof -
  let ?m = "round_half_even n d"
  have dp: "(0::rat) < of_int d" using assms by simp
  have i: "(of_int (2 * (?m * d - n)) :: rat) \<le> of_int d" "(of_int (2 * (n - ?m * d)) :: rat) \<le> of_int d"
    using rhe_err[OF assms, of n] by (simp_all only: of_int_le_iff)
  define t :: rat where "t = (of_int ?m * of_int d - of_int n) / of_int d"
  have "(of_int ?m :: rat) = of_int ?m * of_int d / of_int d" using dp by simp
  then have eq: "of_int ?m - (of_int n / of_int d :: rat) = t"
    by (simp add: t_def diff_divide_distrib)
  have 1: "t \<le> 1 / 2"
    unfolding t_def using i(1) dp by (simp add: pos_divide_le_eq algebra_simps)
  have "- (1 / 2 :: rat) \<le> t"
    unfolding t_def using i(2) dp by (simp add: pos_le_divide_eq algebra_simps)
  then have 2: "- t \<le> 1 / 2" by linarith
  show ?thesis unfolding eq using 1 2 by (rule abs_leI)
qed

lemma rhe_rat_ge:
  assumes "0 < d" and "(of_int k :: rat) \<le> of_int n / of_int d"
  shows "k \<le> round_half_even n d"
proof -
  have "(of_int (k * d) :: rat) \<le> of_int n" using assms by (simp add: pos_le_divide_eq)
  then have "k * d \<le> n" by (simp only: of_int_le_iff)
  then show ?thesis by (rule rhe_ge[OF assms(1)])
qed

lemma rhe_rat_le:
  assumes "0 < d" and "(of_int n / of_int d :: rat) \<le> of_int k"
  shows "round_half_even n d \<le> k"
proof -
  have "(of_int n :: rat) \<le> of_int (k * d)" using assms by (simp add: pos_divide_le_eq)
  then have "n \<le> k * d" by (simp only: of_int_le_iff)
  then show ?thesis by (rule rhe_le[OF assms(1)])
qed

lemma rhe_rat_less:
  assumes "0 < d" and "(of_int n / of_int d :: rat) < of_int k - 1 / 2"
  shows "round_half_even n d < k"
proof -
  have "(of_int n :: rat) < (of_int k - 1 / 2) * of_int d" using assms by (simp add: pos_divide_less_eq)
  then have "(of_int (2 * n + d) :: rat) < of_int (2 * k * d)" by (simp add: algebra_simps)
  then have "2 * n + d < 2 * k * d" by (simp only: of_int_less_iff)
  then show ?thesis by (rule rhe_less[OF assms(1)])
qed

lemma rhe_rat_ge_tie:
  assumes "0 < d" and "(of_int k - 1 / 2 :: rat) \<le> of_int n / of_int d" and "even k"
  shows "k \<le> round_half_even n d"
proof -
  have "(of_int k - 1 / 2) * of_int d \<le> (of_int n :: rat)" using assms by (simp add: pos_le_divide_eq)
  then have "(of_int ((2 * k - 1) * d) :: rat) \<le> of_int (2 * n)" by (simp add: algebra_simps)
  then have "(2 * k - 1) * d \<le> 2 * n" by (simp only: of_int_le_iff)
  then show ?thesis using assms(3) by (intro rhe_ge_tie[OF assms(1)])
qed

lemma scaled_round_ratio:
  assumes "0 < b"
  obtains n d where "0 < d" "scaled_round a b e = round_half_even n d"
    "(of_int n / of_int d :: rat) = of_int a / of_int b * 2 powi (52 - e)"
proof (cases "e \<le> 52")
  case True
  have "(of_int (a * 2 ^ nat (52 - e)) / of_int b :: rat) = of_int a / of_int b * 2 powi (52 - e)"
    using True by (simp add: power_int_nonneg_exp)
  moreover have "scaled_round a b e = round_half_even (a * 2 ^ nat (52 - e)) b"
    using True by (simp add: scaled_round_def)
  ultimately show thesis using assms that by blast
next
  case False
  then have "(2::rat) powi (52 - e) = 1 / 2 ^ nat (e - 52)"
    by (simp add: power_int_def field_simps)
  then have "(of_int a / of_int (b * 2 ^ nat (e - 52)) :: rat) = of_int a / of_int b * 2 powi (52 - e)"
    by simp
  moreover have "scaled_round a b e = round_half_even a (b * 2 ^ nat (e - 52))"
    using False by (simp add: scaled_round_def)
  moreover have "0 < b * 2 ^ nat (e - 52)" using assms by simp
  ultimately show thesis using that by blast
qed

lemma scaled_round_scale:
  assumes "0 < k"
  shows "scaled_round (k * a) (k * b) e = scaled_round a b e"
  using rhe_scale[OF assms] by (simp add: scaled_round_def mult.assoc)

section \<open>Rounding to the nearest double\<close>

lemma powi2_split: "(2::rat) powi (52 - e) * 2 powi (e - 52) = 1"
proof -
  have "(2::rat) powi (52 - e) * 2 powi (e - 52) = 2 powi ((52 - e) + (e - 52))"
    by (rule power_int_add[symmetric]) simp
  then show ?thesis by simp
qed

lemma powi2_half: "(1 / 2) * (2::rat) powi (e - 52) = 2 powi (e - 53)"
proof -
  have "(2::rat) powi (e - 52) = 2 powi ((e - 53) + 1)" by simp
  also have "\<dots> = 2 powi (e - 53) * 2" by (rule power_int_add_1) simp
  finally show ?thesis by simp
qed

lemma nd_pos:
  assumes "0 < a" "0 < b"
  shows "nearest_double a b =
    of_int (scaled_round a b (max (binade a b) (- 1022))) * 2 powi (max (binade a b) (- 1022) - 52)"
  using assms by (simp add: nearest_double_def Let_def)

lemma nd_sign:
  assumes "b \<noteq> 0"
  shows "nearest_double a b = of_int (sgn a * sgn b) * nearest_double \<bar>a\<bar> \<bar>b\<bar>"
  using assms by (simp add: nearest_double_def Let_def)

lemma sr_err:
  assumes "0 < b"
  shows "\<bar>of_int (scaled_round a b e) - of_int a / of_int b * (2::rat) powi (52 - e)\<bar> \<le> 1 / 2"
proof -
  obtain n d where nd: "0 < d" "scaled_round a b e = round_half_even n d"
    "(of_int n / of_int d :: rat) = of_int a / of_int b * 2 powi (52 - e)"
    by (rule scaled_round_ratio[OF assms])
  show ?thesis using rhe_rat_err[OF nd(1), of n] by (simp only: nd(2) nd(3))
qed

lemma sr_ge:
  assumes "0 < b" and "(of_int k :: rat) \<le> of_int a / of_int b * 2 powi (52 - e)"
  shows "k \<le> scaled_round a b e"
proof -
  obtain n d where nd: "0 < d" "scaled_round a b e = round_half_even n d"
    "(of_int n / of_int d :: rat) = of_int a / of_int b * 2 powi (52 - e)"
    by (rule scaled_round_ratio[OF assms(1)])
  show ?thesis unfolding nd(2) using assms(2) by (intro rhe_rat_ge[OF nd(1)]) (simp only: nd(3))
qed

lemma sr_le:
  assumes "0 < b" and "of_int a / of_int b * 2 powi (52 - e) \<le> (of_int k :: rat)"
  shows "scaled_round a b e \<le> k"
proof -
  obtain n d where nd: "0 < d" "scaled_round a b e = round_half_even n d"
    "(of_int n / of_int d :: rat) = of_int a / of_int b * 2 powi (52 - e)"
    by (rule scaled_round_ratio[OF assms(1)])
  show ?thesis unfolding nd(2) using assms(2) by (intro rhe_rat_le[OF nd(1)]) (simp only: nd(3))
qed

lemma sr_less:
  assumes "0 < b" and "of_int a / of_int b * 2 powi (52 - e) < (of_int k :: rat) - 1 / 2"
  shows "scaled_round a b e < k"
proof -
  obtain n d where nd: "0 < d" "scaled_round a b e = round_half_even n d"
    "(of_int n / of_int d :: rat) = of_int a / of_int b * 2 powi (52 - e)"
    by (rule scaled_round_ratio[OF assms(1)])
  show ?thesis unfolding nd(2) using assms(2) by (intro rhe_rat_less[OF nd(1)]) (simp only: nd(3))
qed

lemma sr_ge_tie:
  assumes "0 < b" and "(of_int k :: rat) - 1 / 2 \<le> of_int a / of_int b * 2 powi (52 - e)" and "even k"
  shows "k \<le> scaled_round a b e"
proof -
  obtain n d where nd: "0 < d" "scaled_round a b e = round_half_even n d"
    "(of_int n / of_int d :: rat) = of_int a / of_int b * 2 powi (52 - e)"
    by (rule scaled_round_ratio[OF assms(1)])
  show ?thesis unfolding nd(2) using assms(2,3) by (intro rhe_rat_ge_tie[OF nd(1)]) (simp_all only: nd(3))
qed

lemma nd_err:
  assumes "0 < a" "0 < b"
  shows "\<bar>nearest_double a b - of_int a / of_int b\<bar> \<le> 2 powi (max (binade a b) (- 1022) - 53)"
proof -
  define e where "e = max (binade a b) (- 1022)"
  define q :: rat where "q = of_int a / of_int b"
  define m where "m = scaled_round a b e"
  have r: "nearest_double a b = of_int m * 2 powi (e - 52)"
    using nd_pos[OF assms] by (simp add: e_def m_def)
  have "q = q * (2 powi (52 - e) * 2 powi (e - 52))" by (simp only: powi2_split mult_1_right)
  then have "nearest_double a b - q = (of_int m - q * 2 powi (52 - e)) * 2 powi (e - 52)"
    unfolding r by (simp add: algebra_simps)
  then have "\<bar>nearest_double a b - q\<bar> = \<bar>of_int m - q * 2 powi (52 - e)\<bar> * 2 powi (e - 52)"
    by (simp add: abs_mult)
  also have "\<dots> \<le> (1 / 2) * 2 powi (e - 52)"
    using sr_err[OF assms(2), of a e] unfolding m_def q_def
    by (intro mult_right_mono) simp_all
  also have "\<dots> = 2 powi (e - 53)" by (rule powi2_half)
  finally show ?thesis by (simp add: q_def e_def)
qed

lemma nd_nonneg:
  assumes "0 < a" "0 < b"
  shows "0 \<le> nearest_double a b"
proof -
  have "(of_int 0 :: rat) \<le> of_int a / of_int b * 2 powi (52 - max (binade a b) (- 1022))"
    using assms by simp
  then have "0 \<le> scaled_round a b (max (binade a b) (- 1022))" by (rule sr_ge[OF assms(2)])
  then show ?thesis unfolding nd_pos[OF assms] by simp
qed

lemma nd_scale:
  assumes "0 < a" "0 < b" "0 < k"
  shows "nearest_double (k * a) (k * b) = nearest_double a b"
proof -
  have "0 < k * a" "0 < k * b" using assms by simp_all
  then show ?thesis
    using assms by (simp only: nd_pos assms binade_scale scaled_round_scale)
qed

lemma nd_ratio:
  assumes "0 < a" "0 < b" "0 < c" "0 < d" "a * d = c * b"
  shows "nearest_double a b = nearest_double c d"
proof -
  have "nearest_double a b = nearest_double (d * a) (d * b)" using assms by (simp only: nd_scale)
  also have "\<dots> = nearest_double (b * c) (b * d)" using assms(5) by (simp add: mult.commute)
  also have "\<dots> = nearest_double c d" using assms by (simp only: nd_scale)
  finally show ?thesis .
qed

lemma powi2_add: "(2::rat) powi m * 2 powi n = 2 powi (m + n)"
  by (rule power_int_add[symmetric]) simp

lemma nd_ge_binade:
  assumes "0 < a" "0 < b" "- 1022 \<le> binade a b"
  shows "(2::rat) powi (binade a b) \<le> nearest_double a b"
proof -
  define e where "e = binade a b"
  have me: "max (binade a b) (- 1022) = e" using assms(3) by (simp add: e_def)
  have "(2::rat) powi 52 = 2 powi e * 2 powi (52 - e)" by (simp add: powi2_add)
  also have "\<dots> \<le> of_int a / of_int b * 2 powi (52 - e)"
    using binade_bounds(1)[OF assms(1,2)] unfolding e_def by (intro mult_right_mono) simp_all
  finally have "(of_int (2 ^ 52) :: rat) \<le> of_int a / of_int b * 2 powi (52 - e)" by simp
  then have "2 ^ 52 \<le> scaled_round a b e" by (rule sr_ge[OF assms(2)])
  then have "(of_int (2 ^ 52) :: rat) \<le> of_int (scaled_round a b e)" by (simp only: of_int_le_iff)
  then have "(2::rat) powi 52 * 2 powi (e - 52) \<le> of_int (scaled_round a b e) * 2 powi (e - 52)"
    by (intro mult_right_mono) simp_all
  then have "(2::rat) powi e \<le> of_int (scaled_round a b e) * 2 powi (e - 52)"
    by (simp only: powi2_add) simp
  then show ?thesis unfolding nd_pos[OF assms(1,2)] me by (simp add: e_def)
qed

lemma nd_le_binade:
  assumes "0 < a" "0 < b"
  shows "nearest_double a b \<le> (2::rat) powi (max (binade a b) (- 1022) + 1)"
proof -
  define e where "e = max (binade a b) (- 1022)"
  have "of_int a / of_int b \<le> (2::rat) powi (binade a b + 1)"
    using binade_bounds(2)[OF assms] by simp
  also have "\<dots> \<le> 2 powi (e + 1)" by (rule power_int_increasing) (simp_all add: e_def)
  finally have "of_int a / of_int b * 2 powi (52 - e) \<le> (2::rat) powi (e + 1) * 2 powi (52 - e)"
    by (intro mult_right_mono) simp_all
  also have "\<dots> = of_int (2 ^ 53)" by (simp add: powi2_add)
  finally have "scaled_round a b e \<le> 2 ^ 53" by (rule sr_le[OF assms(2)])
  then have "(of_int (scaled_round a b e) :: rat) \<le> of_int (2 ^ 53)" by (simp only: of_int_le_iff)
  then have "of_int (scaled_round a b e) * 2 powi (e - 52) \<le> (2::rat) powi 53 * 2 powi (e - 52)"
    by (intro mult_right_mono) simp_all
  then have "of_int (scaled_round a b e) * 2 powi (e - 52) \<le> (2::rat) powi (e + 1)"
    by (simp only: powi2_add) (simp add: algebra_simps)
  then show ?thesis unfolding nd_pos[OF assms] e_def .
qed

lemma nd_top_binade_ge:
  assumes "0 < a" "0 < b" "binade a b = 1023"
    and "(2 ^ 1024 - 2 ^ 970 :: rat) \<le> of_int a / of_int b"
  shows "(2 ^ 1024 :: rat) \<le> nearest_double a b"
proof -
  have "(of_int (2 ^ 53) :: rat) - 1 / 2 = (2 ^ 1024 - 2 ^ 970) * 2 powi (52 - 1023)"
    by simp
  also have "\<dots> \<le> of_int a / of_int b * 2 powi (52 - 1023)"
    using assms(4) by (intro mult_right_mono) simp_all
  finally have "2 ^ 53 \<le> scaled_round a b 1023"
    by (rule sr_ge_tie[OF assms(2)]) simp
  then have "(of_int (2 ^ 53) :: rat) \<le> of_int (scaled_round a b 1023)" by (simp only: of_int_le_iff)
  then have "(of_int (2 ^ 53) :: rat) * 2 powi (1023 - 52) \<le> of_int (scaled_round a b 1023) * 2 powi (1023 - 52)"
    by (intro mult_right_mono) simp_all
  moreover have "(of_int (2 ^ 53) :: rat) * 2 powi (1023 - 52) = 2 ^ 1024" by simp
  ultimately show ?thesis unfolding nd_pos[OF assms(1,2)] assms(3) by simp
qed

lemma nd_top_binade_less:
  assumes "0 < a" "0 < b" "binade a b = 1023"
    and "of_int a / of_int b < (2 ^ 1024 - 2 ^ 970 :: rat)"
  shows "nearest_double a b < (2 ^ 1024 :: rat)"
proof -
  have "of_int a / of_int b * 2 powi (52 - 1023) < (2 ^ 1024 - 2 ^ 970 :: rat) * 2 powi (52 - 1023)"
    using assms(4) by (intro mult_strict_right_mono) simp_all
  also have "\<dots> = (of_int (2 ^ 53) :: rat) - 1 / 2" by simp
  finally have "scaled_round a b 1023 < 2 ^ 53"
    by (rule sr_less[OF assms(2)])
  then have "scaled_round a b 1023 \<le> 2 ^ 53 - 1" by simp
  then have "(of_int (scaled_round a b 1023) :: rat) \<le> of_int (2 ^ 53 - 1)" by (simp only: of_int_le_iff)
  then have "of_int (scaled_round a b 1023) * 2 powi (1023 - 52) \<le> (of_int (2 ^ 53 - 1) :: rat) * 2 powi (1023 - 52)"
    by (intro mult_right_mono) simp_all
  moreover have "(of_int (2 ^ 53 - 1) :: rat) * 2 powi (1023 - 52) < 2 ^ 1024" by simp
  ultimately show ?thesis unfolding nd_pos[OF assms(1,2)] assms(3) by simp
qed

lemma nd_overflow_iff:
  assumes "0 < a" "0 < b"
  shows "(2 ^ 1024 :: rat) \<le> nearest_double a b \<longleftrightarrow> (2 ^ 1024 - 2 ^ 970 :: rat) \<le> of_int a / of_int b"
proof
  assume big: "(2 ^ 1024 - 2 ^ 970 :: rat) \<le> of_int a / of_int b"
  have "(2::rat) powi 1023 \<le> 2 ^ 1024 - 2 ^ 970" by simp
  also note big
  also note binade_bounds(2)[OF assms]
  finally have "1023 < binade a b + 1" by (rule powi2_less_imp)
  then consider "binade a b = 1023" | "1024 \<le> binade a b" by linarith
  then show "(2 ^ 1024 :: rat) \<le> nearest_double a b"
  proof cases
    case 1
    then show ?thesis using big by (intro nd_top_binade_ge[OF assms])
  next
    case 2
    then have "(2::rat) powi 1024 \<le> 2 powi (binade a b)" by (intro power_int_increasing) simp_all
    also have "\<dots> \<le> nearest_double a b" using 2 by (intro nd_ge_binade[OF assms]) simp
    finally show ?thesis by simp
  qed
next
  assume ov: "(2 ^ 1024 :: rat) \<le> nearest_double a b"
  show "(2 ^ 1024 - 2 ^ 970 :: rat) \<le> of_int a / of_int b"
  proof (rule ccontr)
    assume "\<not> (2 ^ 1024 - 2 ^ 970 :: rat) \<le> of_int a / of_int b"
    then have small: "of_int a / of_int b < (2 ^ 1024 - 2 ^ 970 :: rat)" by simp
    note binade_bounds(1)[OF assms]
    also note small
    also have "(2 ^ 1024 - 2 ^ 970 :: rat) < 2 powi 1024" by simp
    finally have lt: "binade a b < 1024" by (rule powi2_less_imp)
    show False
    proof (cases "binade a b = 1023")
      case True
      then show ?thesis using nd_top_binade_less[OF assms True small] ov by simp
    next
      case False
      then have "max (binade a b) (- 1022) + 1 \<le> 1023" using lt by simp
      then have "(2::rat) powi (max (binade a b) (- 1022) + 1) \<le> 2 powi 1023"
        by (intro power_int_increasing) simp_all
      then have "nearest_double a b \<le> 2 powi 1023" using nd_le_binade[OF assms] by (rule order_trans[rotated])
      then show ?thesis using ov by simp
    qed
  qed
qed

section \<open>The band of the relevance filter is exact\<close>

lemma nd_rel_err:
  assumes "0 < a" "0 < b" "- 1022 \<le> binade a b"
  shows "\<bar>nearest_double a b - of_int a / of_int b\<bar> \<le> of_int a / of_int b * (1 / 2 ^ 53)"
proof -
  have me: "max (binade a b) (- 1022) = binade a b" using assms(3) by simp
  have p: "(2::rat) powi (- 53) = 1 / 2 ^ 53" by (simp add: power_int_minus field_simps)
  have "\<bar>nearest_double a b - of_int a / of_int b\<bar> \<le> 2 powi (binade a b - 53)"
    using nd_err[OF assms(1,2)] by (simp only: me)
  also have "\<dots> = 2 powi (binade a b) * 2 powi (- 53)"
    using powi2_add[of "binade a b" "- 53"] by simp
  also have "\<dots> \<le> of_int a / of_int b * 2 powi (- 53)"
    using binade_bounds(1)[OF assms(1,2)] by (intro mult_right_mono) simp_all
  finally show ?thesis by (simp only: p)
qed

lemma double_0_8: "nearest_double 8 10 = 3602879701896397 / 4503599627370496"
  by (simp add: nearest_double_def scaled_round_def binade_def round_half_even_def compute_bitlen Let_def)

lemma double_1_2: "nearest_double 12 10 = 5404319552844595 / 4503599627370496"
  by (simp add: nearest_double_def scaled_round_def binade_def round_half_even_def compute_bitlen Let_def)

lemma icon_dims:
  fixes a b :: int
  assumes "0 < a" "0 < b" "a * b < 40000"
  shows "a < 40000" and "b < 40000"
proof -
  have "a * 1 \<le> a * b" using assms by (intro mult_left_mono) simp_all
  then show "a < 40000" using assms(3) by simp
  have "1 * b \<le> a * b" using assms by (intro mult_right_mono) simp_all
  then show "b < 40000" using assms(3) by simp
qed

lemma icon_binade:
  assumes "0 < a" "0 < b" "a * b < 40000"
  shows "- 1022 \<le> binade a b"
proof -
  have b: "b < 40000" using icon_dims[OF assms] by simp
  have "(2::rat) powi (- 17) < 1 / 40000" by (simp add: power_int_minus)
  also have "\<dots> \<le> 1 / of_int b" using b assms(2) by (intro divide_left_mono) simp_all
  also have "\<dots> \<le> of_int a / of_int b" using assms by (intro divide_right_mono) simp_all
  also note binade_bounds(2)[OF assms(1,2)]
  finally have "- 17 < binade a b + 1" by (rule powi2_less_imp)
  then show ?thesis by simp
qed

lemma icon_err:
  assumes "0 < a" "0 < b" "a * b < 40000"
  shows "of_int a / of_int b * (1 - 1 / 2 ^ 53) \<le> nearest_double a b"
    and "nearest_double a b \<le> of_int a / of_int b * (1 + 1 / 2 ^ 53)"
proof -
  have "\<bar>nearest_double a b - of_int a / of_int b\<bar> \<le> of_int a / of_int b * (1 / 2 ^ 53)"
    by (rule nd_rel_err[OF assms(1,2) icon_binade[OF assms]])
  then have "of_int a / of_int b - of_int a / of_int b * (1 / 2 ^ 53) \<le> nearest_double a b"
    and "nearest_double a b \<le> of_int a / of_int b + of_int a / of_int b * (1 / 2 ^ 53)"
    by (simp_all only: abs_le_iff) linarith+
  then show "of_int a / of_int b * (1 - 1 / 2 ^ 53) \<le> nearest_double a b"
    and "nearest_double a b \<le> of_int a / of_int b * (1 + 1 / 2 ^ 53)"
    by (simp_all only: algebra_simps)
qed

lemma ratio_gap_small:
  fixes b r :: int
  assumes "0 < b" "b < 40000" "0 < r" "r \<le> 5"
  shows "(1 / 200000 :: rat) \<le> 1 / (of_int r * of_int b)"
proof -
  have "r * b \<le> 5 * 40000" using assms by (intro mult_mono) simp_all
  then have "(of_int (r * b) :: rat) \<le> of_int (5 * 40000)" by (simp only: of_int_le_iff)
  then show ?thesis using assms by (intro divide_left_mono) simp_all
qed

lemma ratio_gap_above:
  assumes "0 < b" "b < 40000" "p * b + 1 \<le> r * a" "0 < r" "r \<le> 5"
  shows "(of_int p / of_int r :: rat) + 1 / 200000 \<le> of_int a / of_int b"
proof -
  have bp: "(0::rat) < of_int b" and rp: "(0::rat) < of_int r" using assms by simp_all
  have "(of_int (p * b + 1) :: rat) \<le> of_int (r * a)" using assms(3) by (simp only: of_int_le_iff)
  then have "(of_int (p * b + 1) :: rat) / (of_int r * of_int b) \<le> of_int (r * a) / (of_int r * of_int b)"
    using bp rp by (intro divide_right_mono) simp_all
  moreover have "(of_int (r * a) :: rat) / (of_int r * of_int b) = of_int a / of_int b"
    using rp by simp
  moreover have "(of_int (p * b + 1) :: rat) / (of_int r * of_int b) = of_int p / of_int r + 1 / (of_int r * of_int b)"
    using bp by (simp add: add_divide_distrib)
  ultimately show ?thesis using ratio_gap_small[OF assms(1,2,4,5)] by linarith
qed

lemma ratio_gap_below:
  assumes "0 < b" "b < 40000" "r * a + 1 \<le> p * b" "0 < r" "r \<le> 5"
  shows "of_int a / of_int b \<le> (of_int p / of_int r :: rat) - 1 / 200000"
proof -
  have bp: "(0::rat) < of_int b" and rp: "(0::rat) < of_int r" using assms by simp_all
  have "r * a \<le> p * b - 1" using assms(3) by simp
  then have "(of_int (r * a) :: rat) \<le> of_int (p * b - 1)" by (simp only: of_int_le_iff)
  then have "(of_int (r * a) :: rat) / (of_int r * of_int b) \<le> of_int (p * b - 1) / (of_int r * of_int b)"
    using bp rp by (intro divide_right_mono) simp_all
  moreover have "(of_int (r * a) :: rat) / (of_int r * of_int b) = of_int a / of_int b"
    using rp by simp
  moreover have "(of_int (p * b - 1) :: rat) / (of_int r * of_int b) = of_int p / of_int r - 1 / (of_int r * of_int b)"
    using bp by (simp add: diff_divide_distrib)
  ultimately show ?thesis using ratio_gap_small[OF assms(1,2,4,5)] by linarith
qed

lemma band_lower:
  assumes "0 < a" "0 < b" "a * b < 40000"
  shows "nearest_double 8 10 \<le> nearest_double a b \<longleftrightarrow> 4 * b \<le> 5 * a"
proof -
  have b: "b < 40000" using icon_dims[OF assms] by simp
  consider "4 * b = 5 * a" | "4 * b + 1 \<le> 5 * a" | "5 * a + 1 \<le> 4 * b" by linarith
  then show ?thesis
  proof cases
    case 1
    then have "a * 10 = 8 * b" by simp
    then have "nearest_double a b = nearest_double 8 10" using assms by (intro nd_ratio) simp_all
    then show ?thesis using 1 by simp
  next
    case 2
    have "(of_int 4 / of_int 5 :: rat) + 1 / 200000 \<le> of_int a / of_int b"
      using 2 by (intro ratio_gap_above[OF assms(2) b]) simp_all
    then have "(4 / 5 + 1 / 200000) * (1 - 1 / 2 ^ 53) \<le> of_int a / of_int b * (1 - 1 / 2 ^ 53 :: rat)"
      by (intro mult_right_mono) simp_all
    also note icon_err(1)[OF assms]
    finally have "nearest_double 8 10 \<le> nearest_double a b" by (simp add: double_0_8)
    then show ?thesis using 2 by simp
  next
    case 3
    have "of_int a / of_int b \<le> (of_int 4 / of_int 5 :: rat) - 1 / 200000"
      using 3 by (intro ratio_gap_below[OF assms(2) b]) simp_all
    then have "of_int a / of_int b * (1 + 1 / 2 ^ 53 :: rat) \<le> (4 / 5 - 1 / 200000) * (1 + 1 / 2 ^ 53)"
      by (intro mult_right_mono) simp_all
    with icon_err(2)[OF assms] have "nearest_double a b \<le> (4 / 5 - 1 / 200000) * (1 + 1 / 2 ^ 53)"
      by (rule order_trans)
    then have "nearest_double a b < nearest_double 8 10" by (simp add: double_0_8)
    then show ?thesis using 3 by simp
  qed
qed

lemma band_upper:
  assumes "0 < a" "0 < b" "a * b < 40000"
  shows "nearest_double a b \<le> nearest_double 12 10 \<longleftrightarrow> 5 * a \<le> 6 * b"
proof -
  have b: "b < 40000" using icon_dims[OF assms] by simp
  consider "5 * a = 6 * b" | "6 * b + 1 \<le> 5 * a" | "5 * a + 1 \<le> 6 * b" by linarith
  then show ?thesis
  proof cases
    case 1
    then have "a * 10 = 12 * b" by simp
    then have "nearest_double a b = nearest_double 12 10" using assms by (intro nd_ratio) simp_all
    then show ?thesis using 1 by simp
  next
    case 2
    have "(of_int 6 / of_int 5 :: rat) + 1 / 200000 \<le> of_int a / of_int b"
      using 2 by (intro ratio_gap_above[OF assms(2) b]) simp_all
    then have "(6 / 5 + 1 / 200000) * (1 - 1 / 2 ^ 53) \<le> of_int a / of_int b * (1 - 1 / 2 ^ 53 :: rat)"
      by (intro mult_right_mono) simp_all
    also note icon_err(1)[OF assms]
    finally have "nearest_double 12 10 < nearest_double a b" by (simp add: double_1_2)
    then show ?thesis using 2 by simp
  next
    case 3
    have "of_int a / of_int b \<le> (of_int 6 / of_int 5 :: rat) - 1 / 200000"
      using 3 by (intro ratio_gap_below[OF assms(2) b]) simp_all
    then have "of_int a / of_int b * (1 + 1 / 2 ^ 53 :: rat) \<le> (6 / 5 - 1 / 200000) * (1 + 1 / 2 ^ 53)"
      by (intro mult_right_mono) simp_all
    with icon_err(2)[OF assms] have "nearest_double a b \<le> (6 / 5 - 1 / 200000) * (1 + 1 / 2 ^ 53)"
      by (rule order_trans)
    then have "nearest_double a b \<le> nearest_double 12 10" by (simp add: double_1_2)
    then show ?thesis using 3 by simp
  qed
qed

lemma band_pos:
  assumes "0 < a" "0 < b" "a * b < 40000"
  shows "nearest_double 8 10 \<le> nearest_double a b \<and> nearest_double a b \<le> nearest_double 12 10
     \<longleftrightarrow> (4 / 5 :: rat) \<le> of_int a / of_int b \<and> of_int a / of_int b \<le> (6 / 5 :: rat)"
proof -
  have bp: "(0::rat) < of_int b" using assms by simp
  have "(4 * b \<le> 5 * a) \<longleftrightarrow> ((of_int (4 * b) :: rat) \<le> of_int (5 * a))" by (simp only: of_int_le_iff)
  also have "\<dots> \<longleftrightarrow> (4 / 5 :: rat) \<le> of_int a / of_int b" using bp by (simp add: field_simps)
  finally have lo: "(4 * b \<le> 5 * a) \<longleftrightarrow> (4 / 5 :: rat) \<le> of_int a / of_int b" .
  have "(5 * a \<le> 6 * b) \<longleftrightarrow> ((of_int (5 * a) :: rat) \<le> of_int (6 * b))" by (simp only: of_int_le_iff)
  also have "\<dots> \<longleftrightarrow> of_int a / of_int b \<le> (6 / 5 :: rat)" using bp by (simp add: field_simps)
  finally have hi: "(5 * a \<le> 6 * b) \<longleftrightarrow> of_int a / of_int b \<le> (6 / 5 :: rat)" .
  show ?thesis using band_lower[OF assms] band_upper[OF assms] lo hi by simp
qed

lemma nd_abs:
  assumes "a \<noteq> 0" "b \<noteq> 0"
  shows "\<bar>nearest_double a b\<bar> = nearest_double \<bar>a\<bar> \<bar>b\<bar>"
proof -
  have n: "0 \<le> nearest_double \<bar>a\<bar> \<bar>b\<bar>" using assms by (intro nd_nonneg) simp_all
  have s: "\<bar>of_int (sgn a * sgn b) :: rat\<bar> = 1" using assms by (simp add: abs_mult sgn_if)
  have "\<bar>nearest_double a b\<bar> = \<bar>of_int (sgn a * sgn b) :: rat\<bar> * \<bar>nearest_double \<bar>a\<bar> \<bar>b\<bar>\<bar>"
    by (subst nd_sign[OF assms(2)]) (rule abs_mult)
  also have "\<dots> = 1 * \<bar>nearest_double \<bar>a\<bar> \<bar>b\<bar>\<bar>" by (simp only: s)
  also have "\<dots> = nearest_double \<bar>a\<bar> \<bar>b\<bar>" using n by simp
  finally show ?thesis .
qed

lemma overflow_exact:
  assumes "h \<noteq> 0"
  shows "(2 ^ 1024 :: rat) \<le> \<bar>nearest_double w h\<bar> \<longleftrightarrow> float_overflows w h"
proof (cases "w = 0")
  case True
  then show ?thesis by (simp add: nearest_double_def float_overflows_def)
next
  case False
  have "\<bar>of_int w / of_int h :: rat\<bar> = of_int \<bar>w\<bar> / of_int \<bar>h\<bar>" by simp
  then show ?thesis
    using nd_overflow_iff[of "\<bar>w\<bar>" "\<bar>h\<bar>"] False assms
    by (simp only: nd_abs[OF False assms] float_overflows_def) simp
qed

lemma double_0_8_pos: "0 < nearest_double 8 10"
  by (simp add: double_0_8)

lemma nd_opposite:
  assumes "(0 < w \<and> h < 0) \<or> (w < 0 \<and> 0 < h)"
  shows "nearest_double w h \<le> 0" and "(of_int w / of_int h :: rat) < 0"
proof -
  have "0 \<le> nearest_double \<bar>w\<bar> \<bar>h\<bar>" using assms by (intro nd_nonneg) auto
  moreover have "sgn w * sgn h = - 1" using assms by auto
  moreover have "h \<noteq> 0" using assms by auto
  ultimately show "nearest_double w h \<le> 0" by (subst nd_sign) simp_all
  show "(of_int w / of_int h :: rat) < 0" using assms by (auto simp: divide_neg_pos divide_pos_neg)
qed

lemma float_band_exact:
  assumes "h \<noteq> 0" "w * h < 40000"
  shows "nearest_double 8 10 \<le> nearest_double w h \<and> nearest_double w h \<le> nearest_double 12 10
     \<longleftrightarrow> (4 / 5 :: rat) \<le> of_int w / of_int h \<and> of_int w / of_int h \<le> (6 / 5 :: rat)"
proof -
  consider "w = 0" | "0 < w" "0 < h" | "w < 0" "h < 0" | "(0 < w \<and> h < 0) \<or> (w < 0 \<and> 0 < h)"
    using assms(1) by linarith
  then show ?thesis
  proof cases
    case 1
    then show ?thesis using double_0_8_pos by (simp add: nearest_double_def)
  next
    case 2
    then show ?thesis using assms(2) by (intro band_pos)
  next
    case 3
    have q: "(of_int w / of_int h :: rat) = of_int (- w) / of_int (- h)" by simp
    have "nearest_double w h = nearest_double \<bar>w\<bar> \<bar>h\<bar>" using 3 by (subst nd_sign) simp_all
    then have n: "nearest_double w h = nearest_double (- w) (- h)" using 3 by simp
    have "(- w) * (- h) < 40000" using assms(2) by simp
    then show ?thesis unfolding n q using 3 by (intro band_pos) simp_all
  next
    case 4
    define q :: rat where "q = of_int w / of_int h"
    have "nearest_double w h \<le> 0" and "q < 0" using nd_opposite[OF 4] by (simp_all add: q_def)
    then have "\<not> nearest_double 8 10 \<le> nearest_double w h" and "\<not> 4 / 5 \<le> q"
      using double_0_8_pos by linarith+
    then show ?thesis unfolding q_def by blast
  qed
qed

lemma skipped_no_overflow: "skipped_by_policy w h \<Longrightarrow> \<not> float_overflows w h"
proof -
  assume a: "skipped_by_policy w h"
  define q :: rat where "q = of_int w / of_int h"
  have "4 / 5 \<le> q" "q \<le> 6 / 5" using a by (simp_all only: skipped_by_policy_def q_def)
  then have "\<bar>q\<bar> < 2 ^ 1024 - 2 ^ 970" by simp
  then show ?thesis by (simp add: float_overflows_def q_def)
qed

lemma is_relevant_image_zero: "is_relevant_image w 0 = Inr True"
  using double_0_8_pos by (simp add: is_relevant_image_def)

lemma is_relevant_image_overflow:
  assumes "float_overflows w h"
  shows "is_relevant_image w h = Inl OverflowError"
proof -
  have h: "h \<noteq> 0" using assms by (simp add: float_overflows_def)
  then show ?thesis
    using assms overflow_exact[OF h, of w] by (simp add: is_relevant_image_def py_truediv_def Let_def)
qed

lemma is_relevant_image_finite:
  assumes "h \<noteq> 0" and "\<not> float_overflows w h"
  shows "is_relevant_image w h = Inr (\<not> skipped_by_policy w h)"
proof -
  have "\<not> (2 ^ 1024 :: rat) \<le> \<bar>nearest_double w h\<bar>"
    using overflow_exact[OF assms(1), of w] assms(2) by simp
  then have "is_relevant_image w h = Inr (\<not> (w * h < 40000 \<and>
      nearest_double 8 10 \<le> nearest_double w h \<and> nearest_double w h \<le> nearest_double 12 10))"
    using assms(1) by (simp add: is_relevant_image_def py_truediv_def Let_def)
  also have "\<dots> = Inr (\<not> skipped_by_policy w h)"
    using float_band_exact[OF assms(1), of w] assms(1) by (auto simp: skipped_by_policy_def)
  finally show ?thesis .
qed

section \<open>Claims about the relevance filter\<close>

text \<open>
  C2, as stated, fails at 200 by 200: 40000 pixels are not strictly below the threshold
  of line 99, so the image is analyzed.
\<close>

theorem boundary_200_200_not_filtered: "is_relevant_image 200 200 \<noteq> Inr False"
  by (simp add: is_relevant_image_def py_truediv_def nearest_double_def scaled_round_def
      binade_def round_half_even_def compute_bitlen Let_def)

text \<open>
  C2, amended: on the boundary inputs the filter answers true at 200 by 200, at 201 by 200
  and at 100 by 200, and for every width when the height is 0.
\<close>

theorem relevance_boundary_inputs:
  "is_relevant_image 200 200 = Inr True \<and> is_relevant_image 201 200 = Inr True \<and>
   is_relevant_image 100 200 = Inr True \<and> (\<forall>w. is_relevant_image w 0 = Inr True)"
  by (simp add: is_relevant_image_def py_truediv_def nearest_double_def scaled_round_def
      binade_def round_half_even_def compute_bitlen Let_def)


text \<open>
  C5, as stated, fails where the quotient does not fit a float: at width \<open>2^1024\<close> and
  height 1 the pair is not one the policy skips, yet the filter raises instead of
  returning true.
\<close>

theorem relevance_policy_overflow:
  "\<not> skipped_by_policy (2 ^ 1024) 1 \<and> is_relevant_image (2 ^ 1024) 1 = Inl OverflowError"
  by (simp add: is_relevant_image_overflow skipped_by_policy_def float_overflows_def)

text \<open>
  C5, amended: for every width and height the filter returns false exactly when the pixel
  count is strictly below 40000 and the exact ratio lies in the closed band from 0.8 to 1.2
  (rounding to a double does not move the band); for every other pair it returns true,
  unless the height is not 0 and the magnitude of the quotient is at least
  \<open>2^1024 - 2^970\<close>, where the division raises OverflowError.
\<close>

theorem relevance_policy:
  "is_relevant_image width height =
     (if skipped_by_policy width height then Inr False
      else if float_overflows width height then Inl OverflowError
      else Inr True)"
proof (cases "skipped_by_policy width height")
  case True
  then have "height \<noteq> 0" and "\<not> float_overflows width height"
    using skipped_no_overflow[of width height] by (simp_all add: skipped_by_policy_def)
  then have "is_relevant_image width height = Inr (\<not> skipped_by_policy width height)"
    by (rule is_relevant_image_finite)
  then show ?thesis using True by simp
next
  case False
  show ?thesis
  proof (cases "float_overflows width height")
    case True
    then show ?thesis using False by (simp add: is_relevant_image_overflow)
  next
    case finite: False
    show ?thesis
    proof (cases "height = 0")
      case True
      then show ?thesis using False finite by (simp add: is_relevant_image_zero)
    next
      case nz: False
      then show ?thesis using False finite by (simp add: is_relevant_image_finite)
    qed
  qed
qed



section \<open>The loop body and the two loops\<close>

lemma px_raise: "load_image lib x = Inl e \<Longrightarrow> process_xobject lib n x (fc, calls) = (Inl e, calls)"
  by (simp add: process_xobject_def)


lemma analyze_image_log:
  "snd (analyze_image lib calls b m fc) = calls @ [\<lparr>image_data = b, media_type = m, call_context = fc\<rparr>]"
  by (simp add: analyze_image_def Let_def)

lemma px_analyze:
  "load_image lib x = Inr (Some (b, m)) \<Longrightarrow>
   process_xobject lib n x (fc, calls) =
     (Inr (fc @ image_section n (analysis_or_error (fst (analyze_image lib calls b m fc)))),
      calls @ [\<lparr>image_data = b, media_type = m, call_context = fc\<rparr>])"
proof -
  assume l: "load_image lib x = Inr (Some (b, m))"
  obtain r c where a: "analyze_image lib calls b m fc = (r, c)"
    by (cases "analyze_image lib calls b m fc")
  then have "c = calls @ [\<lparr>image_data = b, media_type = m, call_context = fc\<rparr>]"
    using analyze_image_log[of lib calls b m fc] by simp
  then show ?thesis using l a by (simp add: process_xobject_def)
qed






lemma pp_text:
  "extract_text p = Inr t \<Longrightarrow>
   process_page lib n p (fc, calls) = process_xobjects lib n (page_xobjects p) (fc @ page_section n t, calls)"
  by (simp add: process_page_def)




section \<open>The contexts of the analyzer calls\<close>




lemma xobjs_append:
  "process_xobjects lib n (xs @ ys) st =
     (case process_xobjects lib n xs st of
        (Inl e, c) \<Rightarrow> (Inl e, c)
      | (Inr fc, c) \<Rightarrow> process_xobjects lib n ys (fc, c))"
proof (induction xs arbitrary: st)
  case Nil
  then show ?case by (cases st) simp
next
  case (Cons x xs)
  then show ?case by (simp split: prod.splits sum.splits)
qed

lemma pages_append:
  "process_pages lib k (ps @ qs) st =
     (case process_pages lib k ps st of
        (Inl e, c) \<Rightarrow> (Inl e, c)
      | (Inr fc, c) \<Rightarrow> process_pages lib (k + length ps) qs (fc, c))"
proof (induction ps arbitrary: k st)
  case Nil
  then show ?case by (cases st) simp
next
  case (Cons p ps)
  then show ?case by (simp split: prod.splits sum.splits)
qed

section \<open>Running the example documents\<close>

lemma load_flate [simp]: "load_image (demo_library ps) flate_image = Inr (Some ([], lit ''image/png''))"
  by (simp add: load_image_def flate_image_def getitem_def lit_def decode_image_def demo_library_def
      is_relevant_image_finite skipped_by_policy_def float_overflows_def)

lemma load_jpeg [simp]: "load_image (demo_library ps) jpeg_image =
    Inl (Exn ''UnidentifiedImageError'' (lit ''cannot identify image file''))"
  by (simp add: load_image_def jpeg_image_def getitem_def lit_def decode_image_def demo_library_def)

lemma load_jbig2 [simp]: "load_image (demo_library ps) jbig2_image =
    Inl (Exn ''NotImplementedError'' (lit ''unsupported filter /JBIG2Decode''))"
  by (simp add: load_image_def jbig2_image_def getitem_def lit_def demo_library_def)

lemma demo_analyze [simp]: "fst (analyze_image (demo_library ps) calls b m fc) = Inr (lit ''A diagram.'')"
  by (simp add: analyze_image_def demo_library_def Let_def)

lemma page_xobjects_text [simp]: "page_xobjects (text_page s) = []"
  by (simp add: page_xobjects_def text_page_def)

lemma page_xobjects_image [simp]: "page_xobjects (image_page s xs) = xs"
  by (simp add: page_xobjects_def image_page_def comp_def case_prod_unfold)

lemma extract_text_page [simp]:
  "extract_text (text_page s) = Inr (lit s)" "extract_text (image_page s xs) = Inr (lit s)"
  by (simp_all add: text_page_def image_page_def)

lemma demo_fields [simp]:
  "PdfReader (demo_library ps) b = Inr ps"
  "sha256_hexdigest (demo_library ps) b = lit ''e3b0''"
  by (simp_all add: demo_library_def)

lemma empty_world_fields [simp]:
  "cache_files empty_world k = None" "cache_write_error empty_world k = None" "api_log empty_world = []"
  by (simp_all add: empty_world_def)

lemma two_pages_run:
  "process_pages (demo_library ps) 1 two_pages ([], calls)
   = (Inr (segments 1 [(lit ''Intro'', []), (lit ''Design'', [lit ''A diagram.''])]),
      calls @ [\<lparr>image_data = [], media_type = lit ''image/png'',
                 call_context = page_section 1 (lit ''Intro'') @ page_section 2 (lit ''Design'')\<rparr>])"
  by (simp add: two_pages_def process_page_def px_analyze analysis_or_error_def segments_def
      page_segment_def numeral_2_eq_2)


lemma two_pages_parse:
  "fst (parse_pdf (demo_library two_pages) [] empty_world) =
     Inr \<lparr>content = composed_document [(lit ''Intro'', []), (lit ''Design'', [lit ''A diagram.''])]\<rparr>"
  using two_pages_run[of two_pages "[]"]
  by (simp add: parse_pdf_def FileCache_get_def FileCache_put_def get_pdf_hash_def
      composed_document_def Let_def del: process_pages.simps)

lemma empty_get [simp]: "FileCache_get empty_world k = Inr None"
  by (simp add: FileCache_get_def)

lemma offline_fields [simp]:
  "PdfReader (offline_library ps) b = Inr ps"
  "sha256_hexdigest (offline_library ps) b = lit ''e3b0''"
  by (simp_all add: offline_library_def demo_library_def)

lemma load_flate_offline [simp]:
  "load_image (offline_library ps) flate_image = Inr (Some ([], lit ''image/png''))"
  by (simp add: load_image_def flate_image_def getitem_def lit_def decode_image_def demo_library_def
      offline_library_def is_relevant_image_finite skipped_by_policy_def float_overflows_def)

lemma offline_analyze [simp]:
  "fst (analyze_image (offline_library ps) calls b m fc) =
     Inl (Exn ''APIConnectionError'' (lit ''Connection error.''))"
  by (simp add: analyze_image_def offline_library_def demo_library_def Let_def)



lemma demo_intro:
  "process_pages (demo_library ps) 1 [text_page ''Intro''] ([], []) = (Inr (page_section 1 (lit ''Intro'')), [])"
  by (simp add: process_page_def)

lemma jpeg_entries:
  "getitem (entries jpeg_image) (lit ''/Subtype'') = Inr (NameObject (lit ''/Image''))"
  "getitem (entries jpeg_image) (lit ''/Width'') = Inr (NumberObject 640)"
  "getitem (entries jpeg_image) (lit ''/Height'') = Inr (NumberObject 480)"
  "getitem (entries jpeg_image) (lit ''/Filter'') = Inr (NameObject (lit ''/DCTDecode''))"
  "get_data jpeg_image = Inr []"
  by (simp_all add: jpeg_image_def getitem_def lit_def)

lemma jpeg_decode:
  "decode_image (demo_library ps) (NameObject (lit ''/DCTDecode'')) (NumberObject 640, NumberObject 480) []
     = Some (Inl (Exn ''UnidentifiedImageError'' (lit ''cannot identify image file'')))"
  by (simp add: decode_image_def demo_library_def lit_def)

lemma cached_world_files [simp]:
  "cache_files cached_world k = Some (Stored (dict_of_response \<lparr>content = lit ''cached''\<rparr>))"
  by (simp add: cached_world_def)

lemma corrupt_get [simp]:
  "FileCache_get corrupt_world k = Inl (Exn ''JSONDecodeError'' (lit ''Expecting value''))"
  by (simp add: FileCache_get_def corrupt_world_def)

lemma readonly_fields [simp]:
  "FileCache_get readonly_world k = Inr None"
  "cache_write_error readonly_world k = Some (Exn ''PermissionError'' (lit ''Permission denied''))"
  "api_log readonly_world = []"
  by (simp_all add: FileCache_get_def readonly_world_def empty_world_def)

section \<open>The outcomes of parse_pdf\<close>

lemma parse_pdf_get_raises:
  "FileCache_get w (get_pdf_hash lib b) = Inl e \<Longrightarrow> parse_pdf lib b w = (Inl e, w)"
  by (simp add: parse_pdf_def)

lemma parse_pdf_hit:
  "FileCache_get w (get_pdf_hash lib b) = Inr cached \<Longrightarrow> truthy cached \<Longrightarrow>
   parse_pdf lib b w = (PDFParseResponse_kwargs lib (the cached), w)"
  by (simp add: parse_pdf_def)

lemma parse_pdf_reader_raises:
  "FileCache_get w (get_pdf_hash lib b) = Inr cached \<Longrightarrow> \<not> truthy cached \<Longrightarrow>
   PdfReader lib b = Inl e \<Longrightarrow> parse_pdf lib b w = (Inl e, w)"
  by (simp add: parse_pdf_def)

lemma parse_pdf_pages_raise:
  "FileCache_get w (get_pdf_hash lib b) = Inr cached \<Longrightarrow> \<not> truthy cached \<Longrightarrow>
   PdfReader lib b = Inr pages \<Longrightarrow> process_pages lib 1 pages ([], api_log w) = (Inl e, calls) \<Longrightarrow>
   parse_pdf lib b w = (Inl e, w\<lparr>api_log := calls\<rparr>)"
  by (simp add: parse_pdf_def)

lemma parse_pdf_put_raises:
  "FileCache_get w (get_pdf_hash lib b) = Inr cached \<Longrightarrow> \<not> truthy cached \<Longrightarrow>
   PdfReader lib b = Inr pages \<Longrightarrow> process_pages lib 1 pages ([], api_log w) = (Inr fc, calls) \<Longrightarrow>
   cache_write_error w (get_pdf_hash lib b) = Some e \<Longrightarrow>
   parse_pdf lib b w = (Inl e, w\<lparr>api_log := calls\<rparr>)"
  by (simp add: parse_pdf_def FileCache_put_def Let_def)

lemma parse_pdf_stores:
  "FileCache_get w (get_pdf_hash lib b) = Inr cached \<Longrightarrow> \<not> truthy cached \<Longrightarrow>
   PdfReader lib b = Inr pages \<Longrightarrow> process_pages lib 1 pages ([], api_log w) = (Inr fc, calls) \<Longrightarrow>
   cache_write_error w (get_pdf_hash lib b) = None \<Longrightarrow>
   parse_pdf lib b w =
     (Inr \<lparr>content = strip fc\<rparr>,
      w\<lparr>api_log := calls,
        cache_files := (cache_files w)(get_pdf_hash lib b \<mapsto> Stored (dict_of_response \<lparr>content = strip fc\<rparr>))\<rparr>)"
  by (simp add: parse_pdf_def FileCache_put_def Let_def)

lemma parse_pdf_returns:
  assumes "parse_pdf lib b w = (Inr r, w')"
  obtains (hit) cached where "FileCache_get w (get_pdf_hash lib b) = Inr cached" "truthy cached"
      "PDFParseResponse_kwargs lib (the cached) = Inr r" "w' = w"
  | (miss) cached pages fc calls where "FileCache_get w (get_pdf_hash lib b) = Inr cached" "\<not> truthy cached"
      "PdfReader lib b = Inr pages" "process_pages lib 1 pages ([], api_log w) = (Inr fc, calls)"
      "cache_write_error w (get_pdf_hash lib b) = None" "r = \<lparr>content = strip fc\<rparr>"
      "w' = w\<lparr>api_log := calls,
        cache_files := (cache_files w)(get_pdf_hash lib b \<mapsto> Stored (dict_of_response r))\<rparr>"
proof (cases "FileCache_get w (get_pdf_hash lib b)")
  case (Inl e)
  have "parse_pdf lib b w = (Inl e, w)" using Inl by (rule parse_pdf_get_raises)
  then show ?thesis using assms by simp
next
  case (Inr cached)
  show ?thesis
  proof (cases "truthy cached")
    case True
    have "parse_pdf lib b w = (PDFParseResponse_kwargs lib (the cached), w)"
      using Inr True by (rule parse_pdf_hit)
    then have "PDFParseResponse_kwargs lib (the cached) = Inr r" "w' = w" using assms by simp_all
    then show ?thesis using Inr True by (intro hit)
  next
    case False
    show ?thesis
    proof (cases "PdfReader lib b")
      case (Inl e)
      have "parse_pdf lib b w = (Inl e, w)" using Inr False Inl by (rule parse_pdf_reader_raises)
      then show ?thesis using assms by simp
    next
      case pages: (Inr pages)
      obtain res calls where run: "process_pages lib 1 pages ([], api_log w) = (res, calls)"
        by (cases "process_pages lib 1 pages ([], api_log w)")
      show ?thesis
      proof (cases res)
        case (Inl e)
        have "parse_pdf lib b w = (Inl e, w\<lparr>api_log := calls\<rparr>)"
          using Inr False pages run[unfolded Inl] by (rule parse_pdf_pages_raise)
        then show ?thesis using assms by simp
      next
        case fc: (Inr fc)
        show ?thesis
        proof (cases "cache_write_error w (get_pdf_hash lib b)")
          case (Some e)
          have "parse_pdf lib b w = (Inl e, w\<lparr>api_log := calls\<rparr>)"
            using Inr False pages run[unfolded fc] Some by (rule parse_pdf_put_raises)
          then show ?thesis using assms by simp
        next
          case None
          have "parse_pdf lib b w =
            (Inr \<lparr>content = strip fc\<rparr>,
             w\<lparr>api_log := calls,
              cache_files := (cache_files w)(get_pdf_hash lib b \<mapsto> Stored (dict_of_response \<lparr>content = strip fc\<rparr>))\<rparr>)"
            using Inr False pages run[unfolded fc] None by (rule parse_pdf_stores)
          then have eq: "(Inr r, w') = (Inr \<lparr>content = strip fc\<rparr>,
             w\<lparr>api_log := calls,
              cache_files := (cache_files w)(get_pdf_hash lib b \<mapsto> Stored (dict_of_response \<lparr>content = strip fc\<rparr>))\<rparr>)"
            using assms by simp
          have r: "r = \<lparr>content = strip fc\<rparr>" using eq by simp
          have "w' = w\<lparr>api_log := calls,
              cache_files := (cache_files w)(get_pdf_hash lib b \<mapsto> Stored (dict_of_response \<lparr>content = strip fc\<rparr>))\<rparr>"
            using eq by simp
          then have w': "w' = w\<lparr>api_log := calls,
              cache_files := (cache_files w)(get_pdf_hash lib b \<mapsto> Stored (dict_of_response r))\<rparr>"
            by (simp only: r)
          show ?thesis using Inr False pages run[unfolded fc] None r w' by (rule miss)
        qed
      qed
    qed
  qed
qed


section \<open>Claims about the extraction pipeline\<close>







lemma pages_at_image:
  assumes prior: "process_pages lib k ps1 st0 = (Inr fc0, c0)"
    and ptext: "extract_text p = Inr t"
    and objs: "page_xobjects p = xs1 @ x # xs2"
    and earlier: "process_xobjects lib (k + length ps1) xs1
                    (fc0 @ page_section (k + length ps1) t, c0) = (Inr fc, calls)"
  shows "process_pages lib k (ps1 @ p # ps2) st0 =
     (case process_xobject lib (k + length ps1) x (fc, calls) of
        (Inl e, c) \<Rightarrow> (Inl e, c)
      | (Inr fc1, c1) \<Rightarrow>
          (case process_xobjects lib (k + length ps1) xs2 (fc1, c1) of
             (Inl e, c) \<Rightarrow> (Inl e, c)
           | (Inr fc', c) \<Rightarrow> process_pages lib (Suc (k + length ps1)) ps2 (fc', c)))"
proof -
  let ?n = "k + length ps1"
  have "process_page lib ?n p (fc0, c0) = process_xobjects lib ?n (xs1 @ x # xs2) (fc0 @ page_section ?n t, c0)"
    using ptext objs by (simp add: pp_text)
  also have "\<dots> = process_xobjects lib ?n (x # xs2) (fc, calls)"
    using earlier by (simp add: xobjs_append)
  finally have pg: "process_page lib ?n p (fc0, c0) = process_xobjects lib ?n (x # xs2) (fc, calls)" .
  have app: "process_pages lib k (ps1 @ p # ps2) st0 = process_pages lib ?n (p # ps2) (fc0, c0)"
    using prior by (simp add: pages_append)
  obtain r1 c1 where s1: "process_xobject lib ?n x (fc, calls) = (r1, c1)"
    by (cases "process_xobject lib ?n x (fc, calls)")
  show ?thesis
  proof (cases r1)
    case (Inl e)
    then show ?thesis using s1 by (simp add: app pg)
  next
    case (Inr fc1)
    obtain r2 c2 where s2: "process_xobjects lib ?n xs2 (fc1, c1) = (r2, c2)"
      by (cases "process_xobjects lib ?n xs2 (fc1, c1)")
    show ?thesis using s1 s2 Inr by (cases r2) (simp_all add: app pg)
  qed
qed



lemma load_image_codec_raises:
  assumes "getitem (entries x) (lit ''/Subtype'') = Inr st" "py_eq st (lit ''/Image'')"
    and "getitem (entries x) (lit ''/Width'') = Inr wd" "getitem (entries x) (lit ''/Height'') = Inr ht"
    and "get_data x = Inr data" "getitem (entries x) (lit ''/Filter'') = Inr f"
    and "decode_image lib f (wd, ht) data = Some (Inl e) \<or>
         (\<exists>im fmt mime. decode_image lib f (wd, ht) data = Some (Inr (im, fmt, mime)) \<and>
            is_relevant_image (fst (img_size im)) (snd (img_size im)) = Inr True \<and>
            Image_save lib im (upper fmt) = Inl e)"
  shows "load_image lib x = Inl e"
  using assms by (auto simp: load_image_def)

text \<open>
  C10: when decoding a recognized image, or re-encoding a relevant one, raises, parse_pdf
  returns that exception: no document is returned and nothing is stored in the cache.
\<close>

theorem codec_failure_aborts:
  assumes miss: "FileCache_get w (get_pdf_hash lib b) = Inr cached" "\<not> truthy cached"
    and reader: "PdfReader lib b = Inr (ps1 @ p # ps2)"
    and prior: "process_pages lib 1 ps1 ([], api_log w) = (Inr fc0, c0)"
    and ptext: "extract_text p = Inr t"
    and objs: "page_xobjects p = xs1 @ x # xs2"
    and earlier: "process_xobjects lib (1 + length ps1) xs1
                    (fc0 @ page_section (1 + length ps1) t, c0) = (Inr fc, calls)"
    and image: "getitem (entries x) (lit ''/Subtype'') = Inr st" "py_eq st (lit ''/Image'')"
      "getitem (entries x) (lit ''/Width'') = Inr wd" "getitem (entries x) (lit ''/Height'') = Inr ht"
      "get_data x = Inr data" "getitem (entries x) (lit ''/Filter'') = Inr f"
    and raises: "decode_image lib f (wd, ht) data = Some (Inl e) \<or>
         (\<exists>im fmt mime. decode_image lib f (wd, ht) data = Some (Inr (im, fmt, mime)) \<and>
            is_relevant_image (fst (img_size im)) (snd (img_size im)) = Inr True \<and>
            Image_save lib im (upper fmt) = Inl e)"
  shows "parse_pdf lib b w = (Inl e, w\<lparr>api_log := calls\<rparr>)"
proof -
  have "load_image lib x = Inl e" using image raises by (rule load_image_codec_raises)
  then have "process_xobject lib (1 + length ps1) x (fc, calls) = (Inl e, calls)" by (rule px_raise)
  then have "process_pages lib 1 (ps1 @ p # ps2) ([], api_log w) = (Inl e, calls)"
    using pages_at_image[OF prior ptext objs earlier, of ps2] by simp
  with miss reader show ?thesis by (rule parse_pdf_pages_raise)
qed

theorem codec_failure_aborts_witness:
  "FileCache_get empty_world (get_pdf_hash (demo_library scan_pages) []) = Inr None \<and>
   \<not> truthy None \<and>
   PdfReader (demo_library scan_pages) [] = Inr ([text_page ''Intro''] @ image_page ''Photo'' [jpeg_image] # []) \<and>
   process_pages (demo_library scan_pages) 1 [text_page ''Intro''] ([], api_log empty_world)
     = (Inr (page_section 1 (lit ''Intro'')), []) \<and>
   extract_text (image_page ''Photo'' [jpeg_image]) = Inr (lit ''Photo'') \<and>
   page_xobjects (image_page ''Photo'' [jpeg_image]) = [] @ jpeg_image # [] \<and>
   process_xobjects (demo_library scan_pages) (1 + length [text_page ''Intro'']) []
      (page_section 1 (lit ''Intro'') @ page_section (1 + length [text_page ''Intro'']) (lit ''Photo''), [])
     = (Inr (page_section 1 (lit ''Intro'') @ page_section 2 (lit ''Photo'')), []) \<and>
   getitem (entries jpeg_image) (lit ''/Subtype'') = Inr (NameObject (lit ''/Image'')) \<and>
   py_eq (NameObject (lit ''/Image'')) (lit ''/Image'') \<and>
   getitem (entries jpeg_image) (lit ''/Width'') = Inr (NumberObject 640) \<and>
   getitem (entries jpeg_image) (lit ''/Height'') = Inr (NumberObject 480) \<and>
   get_data jpeg_image = Inr [] \<and>
   getitem (entries jpeg_image) (lit ''/Filter'') = Inr (NameObject (lit ''/DCTDecode'')) \<and>
   decode_image (demo_library scan_pages) (NameObject (lit ''/DCTDecode'')) (NumberObject 640, NumberObject 480) []
     = Some (Inl (Exn ''UnidentifiedImageError'' (lit ''cannot identify image file''))) \<and>
   parse_pdf (demo_library scan_pages) [] empty_world =
     (Inl (Exn ''UnidentifiedImageError'' (lit ''cannot identify image file'')), empty_world\<lparr>api_log := []\<rparr>)"
proof -
  let ?L = "demo_library scan_pages"
  let ?e = "Exn ''UnidentifiedImageError'' (lit ''cannot identify image file'')"
  have h1: "FileCache_get empty_world (get_pdf_hash ?L []) = Inr None" by simp
  have h2: "\<not> truthy None" by simp
  have h3: "PdfReader ?L [] = Inr ([text_page ''Intro''] @ image_page ''Photo'' [jpeg_image] # [])"
    by (simp add: scan_pages_def)
  have h4: "process_pages ?L 1 [text_page ''Intro''] ([], api_log empty_world)
     = (Inr (page_section 1 (lit ''Intro'')), [])" using demo_intro by simp
  have h5: "extract_text (image_page ''Photo'' [jpeg_image]) = Inr (lit ''Photo'')" by simp
  have h6: "page_xobjects (image_page ''Photo'' [jpeg_image]) = [] @ jpeg_image # []" by simp
  have h7: "process_xobjects ?L (1 + length [text_page ''Intro'']) []
      (page_section 1 (lit ''Intro'') @ page_section (1 + length [text_page ''Intro'']) (lit ''Photo''), [])
     = (Inr (page_section 1 (lit ''Intro'') @ page_section 2 (lit ''Photo'')), [])"
    by (simp add: numeral_2_eq_2)
  have h9: "py_eq (NameObject (lit ''/Image'')) (lit ''/Image'')" by simp
  have h14: "decode_image ?L (NameObject (lit ''/DCTDecode'')) (NumberObject 640, NumberObject 480) [] = Some (Inl ?e) \<or>
         (\<exists>im fmt mime. decode_image ?L (NameObject (lit ''/DCTDecode'')) (NumberObject 640, NumberObject 480) []
              = Some (Inr (im, fmt, mime)) \<and>
            is_relevant_image (fst (img_size im)) (snd (img_size im)) = Inr True \<and>
            Image_save ?L im (upper fmt) = Inl ?e)"
    using jpeg_decode by simp
  have "parse_pdf ?L [] empty_world = (Inl ?e, empty_world\<lparr>api_log := []\<rparr>)"
    by (rule codec_failure_aborts[OF h1 h2 h3 h4 h5 h6 h7 jpeg_entries(1) h9 jpeg_entries(2,3,5,4) h14])
  then show ?thesis using h1 h2 h3 h4 h5 h6 h7 h9 jpeg_entries jpeg_decode by simp
qed

lemma response_eta: "\<lparr>content = content r\<rparr> = (r :: PDFParseResponse)"
  by simp

lemma parse_pdf_cached:
  assumes "cache_files w (get_pdf_hash lib b) = Some (Stored (dict_of_response r))"
  shows "parse_pdf lib b w = (Inr r, w)"
proof -
  have g: "FileCache_get w (get_pdf_hash lib b) = Inr (Some (dict_of_response r))"
    using assms by (simp add: FileCache_get_def)
  have t: "truthy (Some (dict_of_response r))" by (simp add: dict_of_response_def)
  have "PDFParseResponse_kwargs lib (the (Some (dict_of_response r))) = Inr r"
    by (simp add: dict_of_response_def)
  then show ?thesis using parse_pdf_hit[OF g t] by simp
qed

text \<open>
  C4: when the cache holds a stored result under the fingerprint, parse_pdf returns it
  and leaves the world as it was (no analyzer call, no cache write); and once parse_pdf has
  returned a document, parsing the same bytes again returns the same document and changes
  nothing.
\<close>

theorem cache_hit_short_circuit:
  "(cache_files w (get_pdf_hash lib b) = Some (Stored (dict_of_response r)) \<longrightarrow>
      parse_pdf lib b w = (Inr r, w)) \<and>
   (parse_pdf lib b w = (Inr r, w') \<longrightarrow> parse_pdf lib b w' = (Inr r, w'))"
proof (intro conjI impI)
  assume "cache_files w (get_pdf_hash lib b) = Some (Stored (dict_of_response r))"
  then show "parse_pdf lib b w = (Inr r, w)" by (rule parse_pdf_cached)
next
  assume first: "parse_pdf lib b w = (Inr r, w')"
  then show "parse_pdf lib b w' = (Inr r, w')"
  proof (cases rule: parse_pdf_returns)
    case (hit cached)
    then show ?thesis using first by simp
  next
    case (miss cached pages fc calls)
    have "cache_files w' (get_pdf_hash lib b) = Some (Stored (dict_of_response r))"
      by (simp add: miss(7))
    then show ?thesis by (rule parse_pdf_cached)
  qed
qed

theorem cache_hit_short_circuit_witness:
  "cache_files cached_world (get_pdf_hash (demo_library two_pages) [])
     = Some (Stored (dict_of_response \<lparr>content = lit ''cached''\<rparr>)) \<and>
   parse_pdf (demo_library two_pages) [] cached_world = (Inr \<lparr>content = lit ''cached''\<rparr>, cached_world) \<and>
   parse_pdf (demo_library two_pages) [] empty_world =
     (Inr \<lparr>content = composed_document [(lit ''Intro'', []), (lit ''Design'', [lit ''A diagram.''])]\<rparr>,
      snd (parse_pdf (demo_library two_pages) [] empty_world)) \<and>
   parse_pdf (demo_library two_pages) [] (snd (parse_pdf (demo_library two_pages) [] empty_world)) =
     (Inr \<lparr>content = composed_document [(lit ''Intro'', []), (lit ''Design'', [lit ''A diagram.''])]\<rparr>,
      snd (parse_pdf (demo_library two_pages) [] empty_world))"
proof -
  let ?L = "demo_library two_pages"
  let ?r = "\<lparr>content = composed_document [(lit ''Intro'', []), (lit ''Design'', [lit ''A diagram.''])]\<rparr>"
  let ?w = "snd (parse_pdf ?L [] empty_world)"
  have h1: "cache_files cached_world (get_pdf_hash ?L []) = Some (Stored (dict_of_response \<lparr>content = lit ''cached''\<rparr>))"
    by simp
  have h2: "parse_pdf ?L [] empty_world = (Inr ?r, ?w)"
    using two_pages_parse by (simp add: prod_eq_iff)
  have c1: "parse_pdf ?L [] cached_world = (Inr \<lparr>content = lit ''cached''\<rparr>, cached_world)"
    using cache_hit_short_circuit[of cached_world ?L "[]" "\<lparr>content = lit ''cached''\<rparr>"] h1 by blast
  have c2: "parse_pdf ?L [] ?w = (Inr ?r, ?w)"
    using cache_hit_short_circuit[of empty_world ?L "[]" ?r ?w] h2 by blast
  show ?thesis using h1 h2 c1 c2 by blast
qed

text \<open>
  C3, as stated, fails: with an empty cache the example document is parsed, but when the
  cache file under its fingerprint cannot be read as JSON, parse_pdf returns the exception
  of the cache read instead of the document.
\<close>

theorem unreadable_cache_aborts:
  "fst (parse_pdf (demo_library two_pages) [] empty_world) =
     Inr \<lparr>content = composed_document [(lit ''Intro'', []), (lit ''Design'', [lit ''A diagram.''])]\<rparr> \<and>
   fst (parse_pdf (demo_library two_pages) [] corrupt_world) =
     Inl (Exn ''JSONDecodeError'' (lit ''Expecting value''))"
  using two_pages_parse by (simp add: parse_pdf_def)

text \<open>
  C3, amended: an exception raised by the cache read is returned by parse_pdf before any
  page is looked at, and an exception raised by the cache write is returned by parse_pdf
  in place of the document that had been composed.
\<close>

theorem cache_failure_propagates:
  "(FileCache_get w (get_pdf_hash lib b) = Inl e \<longrightarrow> parse_pdf lib b w = (Inl e, w)) \<and>
   (FileCache_get w (get_pdf_hash lib b) = Inr cached \<and> \<not> truthy cached \<and>
    PdfReader lib b = Inr pages \<and> process_pages lib 1 pages ([], api_log w) = (Inr fc, calls) \<and>
    cache_write_error w (get_pdf_hash lib b) = Some e \<longrightarrow>
      parse_pdf lib b w = (Inl e, w\<lparr>api_log := calls\<rparr>))"
  using parse_pdf_get_raises parse_pdf_put_raises by blast

theorem cache_failure_propagates_witness:
  "FileCache_get corrupt_world (get_pdf_hash (demo_library two_pages) [])
     = Inl (Exn ''JSONDecodeError'' (lit ''Expecting value'')) \<and>
   parse_pdf (demo_library two_pages) [] corrupt_world
     = (Inl (Exn ''JSONDecodeError'' (lit ''Expecting value'')), corrupt_world) \<and>
   FileCache_get readonly_world (get_pdf_hash (demo_library two_pages) []) = Inr None \<and>
   \<not> truthy None \<and>
   PdfReader (demo_library two_pages) [] = Inr two_pages \<and>
   process_pages (demo_library two_pages) 1 two_pages ([], api_log readonly_world) =
     (Inr (segments 1 [(lit ''Intro'', []), (lit ''Design'', [lit ''A diagram.''])]),
      [\<lparr>image_data = [], media_type = lit ''image/png'',
         call_context = page_section 1 (lit ''Intro'') @ page_section 2 (lit ''Design'')\<rparr>]) \<and>
   cache_write_error readonly_world (get_pdf_hash (demo_library two_pages) [])
     = Some (Exn ''PermissionError'' (lit ''Permission denied'')) \<and>
   parse_pdf (demo_library two_pages) [] readonly_world =
     (Inl (Exn ''PermissionError'' (lit ''Permission denied'')),
      readonly_world\<lparr>api_log :=
        [\<lparr>image_data = [], media_type = lit ''image/png'',
           call_context = page_section 1 (lit ''Intro'') @ page_section 2 (lit ''Design'')\<rparr>]\<rparr>)"
proof -
  let ?L = "demo_library two_pages"
  let ?calls = "[\<lparr>image_data = [], media_type = lit ''image/png'',
         call_context = page_section 1 (lit ''Intro'') @ page_section 2 (lit ''Design'')\<rparr>]"
  have h1: "FileCache_get corrupt_world (get_pdf_hash ?L []) = Inl (Exn ''JSONDecodeError'' (lit ''Expecting value''))"
    by simp
  have h2: "FileCache_get readonly_world (get_pdf_hash ?L []) = Inr None \<and> \<not> truthy None \<and>
    PdfReader ?L [] = Inr two_pages \<and>
    process_pages ?L 1 two_pages ([], api_log readonly_world) =
     (Inr (segments 1 [(lit ''Intro'', []), (lit ''Design'', [lit ''A diagram.''])]), ?calls) \<and>
    cache_write_error readonly_world (get_pdf_hash ?L []) = Some (Exn ''PermissionError'' (lit ''Permission denied''))"
    using two_pages_run[of two_pages "[]"] by simp
  have c1: "parse_pdf ?L [] corrupt_world = (Inl (Exn ''JSONDecodeError'' (lit ''Expecting value'')), corrupt_world)"
    using cache_failure_propagates[of corrupt_world ?L "[]" "Exn ''JSONDecodeError'' (lit ''Expecting value'')"] h1
    by blast
  have c2: "parse_pdf ?L [] readonly_world =
     (Inl (Exn ''PermissionError'' (lit ''Permission denied'')), readonly_world\<lparr>api_log := ?calls\<rparr>)"
    using cache_failure_propagates[of readonly_world ?L "[]" "Exn ''PermissionError'' (lit ''Permission denied'')"
       None two_pages "segments 1 [(lit ''Intro'', []), (lit ''Design'', [lit ''A diagram.''])]" ?calls] h2
    by blast
  show ?thesis using h1 h2 c1 c2 by blast
qed

text \<open>
  C7 fails on the code: the stream data of an image is fetched (line 132) before its filter
  is looked at (line 134), so an image whose filter the PDF library cannot decode is not
  skipped: the exception of \<^verbatim>\<open>get_data\<close> leaves parse_pdf.
\<close>

theorem unsupported_filter_aborts:
  "parse_pdf (demo_library [image_page ''Scan'' [jbig2_image]]) [] empty_world =
     (Inl (Exn ''NotImplementedError'' (lit ''unsupported filter /JBIG2Decode'')), empty_world\<lparr>api_log := []\<rparr>)"
  by (simp add: parse_pdf_def get_pdf_hash_def process_page_def px_raise)

text \<open>
  An image stream with no \<^verbatim>\<open>/Filter\<close> entry is not skipped either: the subscript of
  line 134 raises KeyError. An image whose filter is not one of the three is passed over,
  with no call and no section, once its width, height and data have been read.
\<close>

lemma missing_filter_raises:
  "process_xobject lib n raw_image (fc, calls) = (Inl (KeyError (lit ''/Filter'')), calls)"
  by (simp add: process_xobject_def load_image_def raw_image_def getitem_def lit_def)

lemma unrecognized_filter_skipped:
  assumes "getitem (entries x) (lit ''/Subtype'') = Inr st"
    and "getitem (entries x) (lit ''/Width'') = Inr wd" "getitem (entries x) (lit ''/Height'') = Inr ht"
    and "get_data x = Inr data" "getitem (entries x) (lit ''/Filter'') = Inr f"
    and "\<not> py_eq f (lit ''/FlateDecode'')" "\<not> py_eq f (lit ''/DCTDecode'')"
      "\<not> py_eq f (lit ''/JPXDecode'')"
  shows "process_xobject lib n x (fc, calls) = (Inr fc, calls)"
  using assms by (simp add: process_xobject_def load_image_def decode_image_def)

lemma encoder_failure_example:
  "parse_pdf (broken_encoder_library [image_page ''Design'' [flate_image]]) [] empty_world =
     (Inl (Exn ''OSError'' (lit ''encoder error'')), empty_world\<lparr>api_log := []\<rparr>)"
  by (simp add: parse_pdf_def get_pdf_hash_def process_page_def process_xobject_def
      broken_encoder_library_def demo_library_def load_image_def flate_image_def getitem_def
      lit_def decode_image_def is_relevant_image_finite skipped_by_policy_def float_overflows_def)

end
